theory Spec2Isabelle
  imports Main
begin

section \<open>Shared data model\<close>

text \<open>
  \<^verbatim>\<open>deduplicateMessages<T extends { id: string; content: string }>\<close> is generic in the
  record type, so the two fields it reads form the root of an extensible record and the
  function is defined on every extension of it. The field \<^verbatim>\<open>id\<close> is written \<open>id'\<close>
  because \<open>id\<close> is the identity function of HOL. A JavaScript string is modelled as a
  \<^typ>\<open>string\<close> and \<^verbatim>\<open>s.length\<close> as \<^const>\<open>length\<close>.
\<close>

record Keyed =
  id' :: string
  content :: string

text \<open>
  A JavaScript \<^verbatim>\<open>Map\<close> iterates in insertion order and \<^verbatim>\<open>set\<close> on a key that is already
  present keeps the key's position, so a \<^verbatim>\<open>Map\<close> is an association list:
  \<^verbatim>\<open>get\<close> is \<^const>\<open>map_of\<close>, \<^verbatim>\<open>set\<close> is \<open>Map_set\<close>, \<^verbatim>\<open>values()\<close> is \<open>map snd\<close>.
\<close>

fun Map_set :: "'k \<Rightarrow> 'v \<Rightarrow> ('k \<times> 'v) list \<Rightarrow> ('k \<times> 'v) list" where
  "Map_set k v [] = [(k, v)]"
| "Map_set k v ((k', v') # ps) =
     (if k' = k then (k, v) # ps else (k', v') # Map_set k v ps)"

definition Map_has :: "'k \<Rightarrow> ('k \<times> 'v) list \<Rightarrow> bool" where
  "Map_has k m = (map_of m k \<noteq> None)"

text \<open>\<^verbatim>\<open>Array.prototype.findIndex\<close>: the first index whose element satisfies the predicate, -1 if none.\<close>

fun findIndex :: "('a \<Rightarrow> bool) \<Rightarrow> 'a list \<Rightarrow> int" where
  "findIndex P [] = - 1"
| "findIndex P (x # xs) =
     (if P x then 0 else (let i = findIndex P xs in if i < 0 then - 1 else i + 1))"

text \<open>
  \<^verbatim>\<open>forEach((message, index) => ...)\<close> and \<^verbatim>\<open>reduce((acc, message, index) => ..., init)\<close>:
  a left-to-right pass that threads a state and hands the callback the running index.
\<close>

fun forEach_indexed :: "('s \<Rightarrow> 'a \<Rightarrow> nat \<Rightarrow> 's) \<Rightarrow> nat \<Rightarrow> 'a list \<Rightarrow> 's \<Rightarrow> 's" where
  "forEach_indexed f index [] s = s"
| "forEach_indexed f index (x # xs) s = forEach_indexed f (Suc index) xs (f s x index)"

section \<open>The deduplication primitive\<close>

subsection \<open>\<^verbatim>\<open>deduplicateMessages\<close> (ChatInterface.tsx)\<close>

text \<open>The body of the \<^verbatim>\<open>forEach\<close> callback; \<open>seen\<close> is the \<^verbatim>\<open>Map\<close>.\<close>

definition dedup_visit ::
  "'a Keyed_scheme list \<Rightarrow> (string \<times> 'a Keyed_scheme) list \<Rightarrow> 'a Keyed_scheme \<Rightarrow> nat
     \<Rightarrow> (string \<times> 'a Keyed_scheme) list" where
  "dedup_visit messages seen message index =
     (case map_of seen (id' message) of
        None \<Rightarrow> Map_set (id' message) message seen
      | Some existing \<Rightarrow>
          if length (content message) > length (content existing) \<or>
             (length (content message) = length (content existing) \<and>
              int index > findIndex (\<lambda>m. id' m = id' existing) messages)
          then Map_set (id' message) message seen
          else seen)"

definition deduplicateMessages :: "'a Keyed_scheme list \<Rightarrow> 'a Keyed_scheme list" where
  "deduplicateMessages messages =
     map snd (forEach_indexed (dedup_visit messages) 0 messages [])"

subsection \<open>The \<^verbatim>\<open>reduce\<close> pass of \<^verbatim>\<open>PureMessageDisplay\<close> (ChatMessageDisplay)\<close>

text \<open>
  The accumulator is an array; a duplicate overwrites the slot \<^verbatim>\<open>acc[existingIndex]\<close>.
  \<open>existingIndex\<close> is an index into \<open>acc\<close> whenever it is not -1, so the read and the
  write are in range.
\<close>

definition reduce_visit ::
  "'a Keyed_scheme list \<Rightarrow> 'a Keyed_scheme list \<Rightarrow> 'a Keyed_scheme \<Rightarrow> nat
     \<Rightarrow> 'a Keyed_scheme list" where
  "reduce_visit messages acc message index =
     (let existingIndex = findIndex (\<lambda>m. id' m = id' message) acc in
      if existingIndex = - 1 then acc @ [message]
      else
        let existing = acc ! nat existingIndex; current = message in
        if length (content current) > length (content existing) \<or>
           (length (content current) = length (content existing) \<and>
            int index > findIndex (\<lambda>m. id' m = id' existing) messages)
        then acc[nat existingIndex := current]
        else acc)"

definition deduplicatedMessages :: "'a Keyed_scheme list \<Rightarrow> 'a Keyed_scheme list" where
  "deduplicatedMessages messages = forEach_indexed (reduce_visit messages) 0 messages []"

text \<open>
  Proof vocabulary for the pass. \<open>kept_in pre r\<close>: the record \<open>r\<close> stands in \<open>pre\<close>,
  no record of its id before it is longer, and every record of its id after it is
  strictly shorter. \<open>seen_inv pre seen\<close> is the invariant of the \<^verbatim>\<open>Map\<close> once the
  records \<open>pre\<close> have been visited.
\<close>

definition kept_in :: "'a Keyed_scheme list \<Rightarrow> 'a Keyed_scheme \<Rightarrow> bool" where
  "kept_in pre r = (\<exists>ys zs. pre = ys @ r # zs \<and>
      (\<forall>m\<in>set ys. id' m = id' r \<longrightarrow> length (content m) \<le> length (content r)) \<and>
      (\<forall>m\<in>set zs. id' m = id' r \<longrightarrow> length (content m) < length (content r)))"

definition seen_inv :: "'a Keyed_scheme list \<Rightarrow> (string \<times> 'a Keyed_scheme) list \<Rightarrow> bool" where
  "seen_inv pre seen = (distinct (map fst seen) \<and> set (map fst seen) = id' ` set pre \<and>
      (\<forall>(k, r)\<in>set seen. id' r = k \<and> kept_in pre r))"

section \<open>Messages of the chat interface\<close>

text \<open>
  A date is a valid \<^verbatim>\<open>Date\<close>: its time value, which \<^verbatim>\<open>getTime()\<close> returns, is a whole
  number of milliseconds between -8.64e15 and 8.64e15. An invalid \<^verbatim>\<open>Date\<close>, whose
  \<^verbatim>\<open>getTime()\<close> is \<^verbatim>\<open>NaN\<close>, is not a value of the type: with one in the list the
  comparison handed to \<^verbatim>\<open>Array.prototype.sort\<close> is not consistent and the order the
  engine leaves is its own choice. The date of time value \<open>t\<close> in range is
  \<open>Abs_JSDate t\<close>.
\<close>

typedef JSDate = "{t :: int. - 8640000000000000 \<le> t \<and> t \<le> 8640000000000000}"
  by (rule exI [of _ 0]) simp

definition getTime :: "JSDate \<Rightarrow> int" where
  "getTime d = Rep_JSDate d"

text \<open>
  A property that the code compares with \<^verbatim>\<open>!==\<close>: a missing property reads as
  \<^verbatim>\<open>undefined\<close>, which is not \<^verbatim>\<open>null\<close>, and neither is a value.
\<close>

datatype 'a nullable = Undefined | Null | Value 'a

text \<open>
  A \<^verbatim>\<open>UIMessage\<close> as the component reads and builds it. \<open>createdAt\<close> is \<open>None\<close> when
  the field is missing or otherwise falsy. \<open>imgurl\<close> is compared strictly and so
  keeps \<^verbatim>\<open>undefined\<close> and \<^verbatim>\<open>null\<close> apart; the other optional fields are only copied and
  are options; a field that is only tested for truthiness
  (\<^verbatim>\<open>isImageGenerationLoading\<close>) is a boolean.
\<close>

datatype Part = Part (part_type: string) (part_text: string)

record UIMessage = Keyed +
  role :: string
  parts :: "Part list"
  createdAt :: "JSDate option"
  webSearchResults :: "string list option"
  attachments :: "string list option"
  model :: "string option"
  imgurl :: "string nullable"
  isImageGenerationLoading :: bool

text \<open>
  The records carried by the \<^verbatim>\<open>messages_updated\<close> event (\<^verbatim>\<open>updatedMessages: any[]\<close>), with
  the fields the handler reads; every field name carries the suffix \<open>_db\<close>.
\<close>

record DBMessage =
  id_db :: string
  role_db :: string
  content_db :: string
  parts_db :: "Part list option"
  createdAt_db :: "JSDate option"
  webSearchResults_db :: "string list option"
  attachments_db :: "string list option"
  model_db :: "string option"
  imgurl_db :: "string nullable"

text \<open>\<^verbatim>\<open>String.prototype.includes\<close> (written \<open>includes'\<close>), by way of a prefix test at every
  position.\<close>

fun starts_with :: "string \<Rightarrow> string \<Rightarrow> bool" where
  "starts_with s [] = True"
| "starts_with [] (c # cs) = False"
| "starts_with (x # xs) (c # cs) = (x = c \<and> starts_with xs cs)"

fun includes' :: "string \<Rightarrow> string \<Rightarrow> bool" where
  "includes' [] sub = (sub = [])"
| "includes' (x # xs) sub = (starts_with (x # xs) sub \<or> includes' xs sub)"

text \<open>Truthiness of such a property holding a string: a value, and not the empty string.\<close>

definition truthy :: "string nullable \<Rightarrow> bool" where
  "truthy v = (case v of Value s \<Rightarrow> s \<noteq> [] | _ \<Rightarrow> False)"

text \<open>\<^verbatim>\<open>new Map(entries)\<close>: entries are set in order, so a later entry of a key wins.\<close>

definition Map_of_entries :: "('k \<times> 'v) list \<Rightarrow> ('k \<times> 'v) list" where
  "Map_of_entries entries = foldl (\<lambda>m (k, v). Map_set k v m) [] entries"

text \<open>
  \<^verbatim>\<open>a.createdAt ? new Date(a.createdAt).getTime() : 0\<close>, the sort key. The comparison
  is \<^verbatim>\<open>aTime - bTime\<close>; both are whole numbers that a double holds exactly, so the sign
  of the difference is the order of the keys. \<^verbatim>\<open>Array.prototype.sort\<close> is stable, as is
  \<^const>\<open>sort_key\<close>.
\<close>

definition timeOf :: "'a UIMessage_scheme \<Rightarrow> int" where
  "timeOf a = (case createdAt a of None \<Rightarrow> 0 | Some d \<Rightarrow> getTime d)"

section \<open>Tracking of locally appended messages\<close>

text \<open>
  \<^verbatim>\<open>recentlyAppendedMessages\<close> is a \<^verbatim>\<open>Set<string>\<close>. \<^verbatim>\<open>trackAppendedMessage\<close> adds the id
  and arms a timer of 2000 ms that deletes it. The pending timers are part of the
  state, each with the time at which it is due; \<open>fireTimers now\<close> runs the callbacks
  of the timers due at \<open>now\<close> or before, which the event loop does before it runs a
  task at time \<open>now\<close>. Times are milliseconds.
\<close>

record Tracker =
  recentlyAppendedMessages :: "string set"
  timers :: "(nat \<times> string) list"

definition fireTimers :: "nat \<Rightarrow> Tracker \<Rightarrow> Tracker" where
  "fireTimers now t =
     t\<lparr>recentlyAppendedMessages :=
         recentlyAppendedMessages t - snd ` set (filter (\<lambda>(due, messageId). due \<le> now) (timers t)),
       timers := filter (\<lambda>(due, messageId). \<not> due \<le> now) (timers t)\<rparr>"

definition trackAppendedMessage :: "nat \<Rightarrow> string \<Rightarrow> Tracker \<Rightarrow> Tracker" where
  "trackAppendedMessage now messageId t =
     t\<lparr>recentlyAppendedMessages := insert messageId (recentlyAppendedMessages t),
       timers := timers t @ [(now + 2000, messageId)]\<rparr>"

section \<open>\<^verbatim>\<open>handleMessagesUpdated\<close>: merging a durable-store notification\<close>

definition toUIMessage :: "DBMessage \<Rightarrow> UIMessage" where
  "toUIMessage msg =
     \<lparr>id' = id_db msg,
      content = content_db msg,
      role = role_db msg,
      parts = (case parts_db msg of Some ps \<Rightarrow> ps | None \<Rightarrow> [Part ''text'' (content_db msg)]),
      createdAt = createdAt_db msg,
      webSearchResults = webSearchResults_db msg,
      attachments = attachments_db msg,
      model = model_db msg,
      imgurl = imgurl_db msg,
      isImageGenerationLoading = False\<rparr>"

text \<open>The callback of \<^verbatim>\<open>hasUpdatedMessages\<close>, given the current list.\<close>

definition needsUpdate :: "UIMessage list \<Rightarrow> UIMessage \<Rightarrow> bool" where
  "needsUpdate messages dbMsg =
     (case find (\<lambda>msg. id' msg = id' dbMsg) messages of
        None \<Rightarrow> False
      | Some currentMsg \<Rightarrow>
          let wasLoading = (includes' (content currentMsg) ''Generating your image'' \<or>
                            isImageGenerationLoading currentMsg);
              nowHasImage = (truthy (imgurl dbMsg) \<and>
                             \<not> includes' (content dbMsg) ''Generating your image'');
              contentChanged = (content currentMsg \<noteq> content dbMsg);
              imgUrlChanged = (imgurl currentMsg \<noteq> imgurl dbMsg)
          in (wasLoading \<and> nowHasImage) \<or> contentChanged \<or> imgUrlChanged)"

text \<open>
  The handler is closed over \<open>threadId\<close>, the tracked-id set and the current
  \<open>messages\<close>. Its result is the argument of the one call of \<^verbatim>\<open>setMessages\<close> it makes,
  \<open>None\<close> when it makes none.
\<close>

definition handleMessagesUpdated ::
  "string \<Rightarrow> string set \<Rightarrow> UIMessage list \<Rightarrow> string \<Rightarrow> DBMessage list \<Rightarrow> UIMessage list option" where
  "handleMessagesUpdated threadId recentlyAppended messages updatedThreadId updatedMessages =
     (if updatedThreadId = threadId then
        let uiMessages = map toUIMessage updatedMessages;
            currentMessageIds = set (map id' messages);
            dbMessageIds = set (map id' uiMessages);
            isNew = (\<lambda>dbMsg. id' dbMsg \<notin> currentMessageIds \<and> id' dbMsg \<notin> recentlyAppended);
            hasNewMessages = list_ex isNew uiMessages;
            hasMissingMessages =
              list_ex (\<lambda>uiMsg. id' uiMsg \<notin> dbMessageIds \<and> id' uiMsg \<notin> recentlyAppended) messages;
            hasUpdatedMessages = list_ex (needsUpdate messages) uiMessages
        in
        if hasNewMessages \<or> hasMissingMessages \<or> hasUpdatedMessages then
          if hasUpdatedMessages then
            let dbMessageMap = Map_of_entries (map (\<lambda>msg. (id' msg, msg)) uiMessages);
                updatedMessages' =
                  map (\<lambda>uiMsg. case map_of dbMessageMap (id' uiMsg) of
                                  Some dbMsg \<Rightarrow> dbMsg
                                | None \<Rightarrow> uiMsg) messages;
                pushed = updatedMessages' @ filter isNew uiMessages
            in Some (deduplicateMessages (sort_key timeOf pushed))
          else
            let mergedMessages = messages @ filter isNew uiMessages
            in Some (deduplicateMessages (sort_key timeOf mergedMessages))
        else None
      else None)"

text \<open>The message list after a handler ran: replaced if \<^verbatim>\<open>setMessages\<close> was called.\<close>

definition messagesAfter :: "'a list \<Rightarrow> 'a list option \<Rightarrow> 'a list" where
  "messagesAfter prevMessages call = (case call of None \<Rightarrow> prevMessages | Some new \<Rightarrow> new)"

text \<open>
  Proof vocabulary: the \<^verbatim>\<open>messages.map\<close> of the update branch, which puts the record of
  \<open>dbMessageMap\<close> in the place of each current record whose id it holds.
\<close>

definition replaced :: "UIMessage list \<Rightarrow> UIMessage list \<Rightarrow> UIMessage list" where
  "replaced uiMessages messages =
     map (\<lambda>uiMsg. case map_of (Map_of_entries (map (\<lambda>msg. (id' msg, msg)) uiMessages)) (id' uiMsg) of
                     Some dbMsg \<Rightarrow> dbMsg
                   | None \<Rightarrow> uiMsg) messages"

section \<open>\<^verbatim>\<open>handleStreamingBroadcast\<close>: a broadcast of content so far\<close>

text \<open>
  Modelled from the spec: the type \<^verbatim>\<open>StreamingState\<close> is declared in
  \<^verbatim>\<open>lib/streamingSync\<close>, which is not among the sources. The fields are those of the
  spec's data model, under the names the handler reads; the content field is written
  \<open>content_s\<close> to keep it apart from the message field.
\<close>

record StreamingState =
  threadId :: string
  messageId :: string
  sessionId :: string
  content_s :: string
  isStreaming :: bool
  lastUpdate :: int

text \<open>
  \<open>getSessionId\<close> is the value of \<^verbatim>\<open>streamingSync.getSessionId()\<close> and \<open>now\<close> that of
  \<^verbatim>\<open>new Date()\<close>; the pushed record has no \<^verbatim>\<open>imgurl\<close> property. \<^verbatim>\<open>setMessages\<close> is called with an updater, which React applies to the
  list of that moment, \<open>prevMessages\<close>; the result is the list the updater returns,
  \<open>None\<close> when \<^verbatim>\<open>setMessages\<close> is not called.
\<close>

definition handleStreamingBroadcast ::
  "string \<Rightarrow> string \<Rightarrow> JSDate \<Rightarrow> string \<Rightarrow> string \<Rightarrow> StreamingState \<Rightarrow> UIMessage list
     \<Rightarrow> UIMessage list option" where
  "handleStreamingBroadcast thisThreadId getSessionId now broadcastThreadId msgId streamingState
       prevMessages =
     (if broadcastThreadId = thisThreadId \<and> sessionId streamingState \<noteq> getSessionId then
        if isStreaming streamingState then
          let updatedMessages =
                map (\<lambda>msg. if id' msg = messageId streamingState
                            then msg\<lparr>content := content_s streamingState\<rparr>
                            else msg) prevMessages;
              messageExists = list_ex (\<lambda>msg. id' msg = messageId streamingState) prevMessages;
              pushed =
                (if \<not> messageExists
                 then updatedMessages @
                   [\<lparr>id' = messageId streamingState,
                     content = content_s streamingState,
                     role = ''assistant'',
                     parts = [Part ''text'' (content_s streamingState)],
                     createdAt = Some now,
                     webSearchResults = None,
                     attachments = None,
                     model = None,
                     imgurl = Undefined,
                     isImageGenerationLoading = False\<rparr>]
                 else updatedMessages)
          in Some (deduplicateMessages pushed)
        else None
      else None)"

section \<open>The realtime subscriber (appwriteRealtime.ts)\<close>

subsection \<open>Events, handlers and callbacks\<close>

text \<open>
  A payload is a document with an owning user; the class reads no other field, so the
  document types are the extensions of one record. \<^verbatim>\<open>response.payload?.userId\<close> is
  \<^verbatim>\<open>undefined\<close> when the payload or the field is absent: both are options.
\<close>

record Document =
  userId :: "string option"

record 'a RealtimeResponseEvent =
  events :: "string list"
  payload :: "'a Document_scheme option"

text \<open>The twelve private handlers, and the twelve optional callbacks of \<^verbatim>\<open>RealtimeCallbacks\<close>.\<close>

datatype Handler =
    handleThreadCreated | handleThreadUpdated | handleThreadDeleted
  | handleMessageCreated | handleMessageUpdated | handleMessageDeleted
  | handleMessageSummaryCreated | handleMessageSummaryUpdated | handleMessageSummaryDeleted
  | handleProjectCreated | handleProjectUpdated | handleProjectDeleted

datatype CallbackName =
    onThreadCreated | onThreadUpdated | onThreadDeleted
  | onMessageCreated | onMessageUpdated | onMessageDeleted
  | onMessageSummaryCreated | onMessageSummaryUpdated | onMessageSummaryDeleted
  | onProjectCreated | onProjectUpdated | onProjectDeleted

text \<open>Reading \<^verbatim>\<open>eventType.includes\<close> when \<^verbatim>\<open>events[0]\<close> is \<^verbatim>\<open>undefined\<close> throws.\<close>

datatype error = TypeError

text \<open>Each handler looks up one callback and calls it with the document if it is set.\<close>

fun callback_of :: "Handler \<Rightarrow> CallbackName" where
  "callback_of handleThreadCreated = onThreadCreated"
| "callback_of handleThreadUpdated = onThreadUpdated"
| "callback_of handleThreadDeleted = onThreadDeleted"
| "callback_of handleMessageCreated = onMessageCreated"
| "callback_of handleMessageUpdated = onMessageUpdated"
| "callback_of handleMessageDeleted = onMessageDeleted"
| "callback_of handleMessageSummaryCreated = onMessageSummaryCreated"
| "callback_of handleMessageSummaryUpdated = onMessageSummaryUpdated"
| "callback_of handleMessageSummaryDeleted = onMessageSummaryDeleted"
| "callback_of handleProjectCreated = onProjectCreated"
| "callback_of handleProjectUpdated = onProjectUpdated"
| "callback_of handleProjectDeleted = onProjectDeleted"

definition run_handler :: "(CallbackName \<rightharpoonup> 'f) \<Rightarrow> Handler \<Rightarrow> 'p \<Rightarrow> ('f \<times> 'p) list" where
  "run_handler callbacks h doc =
     (case callbacks (callback_of h) of Some f \<Rightarrow> [(f, doc)] | None \<Rightarrow> [])"

subsection \<open>The four listeners\<close>

text \<open>
  A listener is the arrow function handed to \<^verbatim>\<open>client.subscribe\<close>, closed over the
  \<^verbatim>\<open>userId\<close> of the call (here \<open>uid\<close>). Its result is the list of handler calls it makes,
  in order, or the error it throws.
\<close>

definition threadsListener ::
  "string \<Rightarrow> 'a RealtimeResponseEvent \<Rightarrow> error + (Handler \<times> 'a Document_scheme) list" where
  "threadsListener uid response =
     (case payload response of
        None \<Rightarrow> Inr []
      | Some doc \<Rightarrow>
          if userId doc \<noteq> Some uid then Inr []
          else (case events response of
                  [] \<Rightarrow> Inl TypeError
                | eventType # _ \<Rightarrow>
                    if includes' eventType ''.create'' then Inr [(handleThreadCreated, doc)]
                    else if includes' eventType ''.update'' then Inr [(handleThreadUpdated, doc)]
                    else if includes' eventType ''.delete'' then Inr [(handleThreadDeleted, doc)]
                    else Inr []))"

definition messagesListener ::
  "string \<Rightarrow> 'a RealtimeResponseEvent \<Rightarrow> error + (Handler \<times> 'a Document_scheme) list" where
  "messagesListener uid response =
     (case payload response of
        None \<Rightarrow> Inr []
      | Some doc \<Rightarrow>
          if userId doc \<noteq> Some uid then Inr []
          else (case events response of
                  [] \<Rightarrow> Inl TypeError
                | eventType # _ \<Rightarrow>
                    if includes' eventType ''.create'' then Inr [(handleMessageCreated, doc)]
                    else if includes' eventType ''.update'' then Inr [(handleMessageUpdated, doc)]
                    else if includes' eventType ''.delete'' then Inr [(handleMessageDeleted, doc)]
                    else Inr []))"

text \<open>
  The summaries listener is a \<^verbatim>\<open>switch\<close> on \<^verbatim>\<open>response.events[0]\<close> with three string
  literals as cases: strict equality, no default, and no error on \<^verbatim>\<open>undefined\<close>.
\<close>

definition messageSummariesListener ::
  "string \<Rightarrow> 'a RealtimeResponseEvent \<Rightarrow> error + (Handler \<times> 'a Document_scheme) list" where
  "messageSummariesListener uid response =
     (case payload response of
        None \<Rightarrow> Inr []
      | Some doc \<Rightarrow>
          if userId doc \<noteq> Some uid then Inr []
          else (case events response of
                  [] \<Rightarrow> Inr []
                | eventType # _ \<Rightarrow>
                    if eventType = ''databases.*.collections.*.documents.*.create''
                    then Inr [(handleMessageSummaryCreated, doc)]
                    else if eventType = ''databases.*.collections.*.documents.*.update''
                    then Inr [(handleMessageSummaryUpdated, doc)]
                    else if eventType = ''databases.*.collections.*.documents.*.delete''
                    then Inr [(handleMessageSummaryDeleted, doc)]
                    else Inr []))"

definition projectsListener ::
  "string \<Rightarrow> 'a RealtimeResponseEvent \<Rightarrow> error + (Handler \<times> 'a Document_scheme) list" where
  "projectsListener uid response =
     (case payload response of
        None \<Rightarrow> Inr []
      | Some doc \<Rightarrow>
          if userId doc \<noteq> Some uid then Inr []
          else (case events response of
                  [] \<Rightarrow> Inl TypeError
                | eventType # _ \<Rightarrow>
                    if includes' eventType ''.create'' then Inr [(handleProjectCreated, doc)]
                    else if includes' eventType ''.update'' then Inr [(handleProjectUpdated, doc)]
                    else if includes' eventType ''.delete'' then Inr [(handleProjectDeleted, doc)]
                    else Inr []))"

datatype Listener =
    ThreadsListener string
  | MessagesListener string
  | MessageSummariesListener string
  | ProjectsListener string

fun listen ::
  "Listener \<Rightarrow> 'a RealtimeResponseEvent \<Rightarrow> error + (Handler \<times> 'a Document_scheme) list" where
  "listen (ThreadsListener uid) response = threadsListener uid response"
| "listen (MessagesListener uid) response = messagesListener uid response"
| "listen (MessageSummariesListener uid) response = messageSummariesListener uid response"
| "listen (ProjectsListener uid) response = projectsListener uid response"

text \<open>What an event delivered to a listener makes of the registered callbacks: the calls made.\<close>

definition deliver ::
  "(CallbackName \<rightharpoonup> 'f) \<Rightarrow> Listener \<Rightarrow> 'a RealtimeResponseEvent
     \<Rightarrow> error + ('f \<times> 'a Document_scheme) list" where
  "deliver callbacks listener response =
     (case listen listener response of
        Inl e \<Rightarrow> Inl e
      | Inr calls \<Rightarrow> Inr (concat (map (\<lambda>(h, doc). run_handler callbacks h doc) calls)))"

subsection \<open>The subscription registry\<close>

text \<open>
  The identifiers imported from \<^verbatim>\<open>./appwriteDB\<close> are not among the sources; they are
  parameters of the model.
\<close>

record Config =
  DATABASE_ID :: string
  THREADS_COLLECTION_ID :: string
  MESSAGES_COLLECTION_ID :: string
  MESSAGE_SUMMARIES_COLLECTION_ID :: string
  PROJECTS_COLLECTION_ID :: string

definition documents_channel :: "Config \<Rightarrow> string \<Rightarrow> string" where
  "documents_channel cfg collection =
     ''databases.'' @ DATABASE_ID cfg @ ''.collections.'' @ collection @ ''.documents''"

text \<open>
  The SDK client is the list of the subscriptions opened on it, each a channel and its
  listener. \<^verbatim>\<open>client.subscribe\<close> opens one more and returns the handle that closes it,
  here its position; it is taken to succeed.
\<close>

record Client =
  channels :: "(string \<times> Listener) list"

definition client_subscribe :: "string \<Rightarrow> Listener \<Rightarrow> Client \<Rightarrow> nat \<times> Client" where
  "client_subscribe channel listener c =
     (length (channels c), c\<lparr>channels := channels c @ [(channel, listener)]\<rparr>)"

text \<open>The static state of the class, and the client it subscribes on.\<close>

record 'f AppwriteRealtime =
  subscriptions :: "(string \<times> nat) list"
  callbacks :: "CallbackName \<rightharpoonup> 'f"
  client :: Client

definition initialRealtime :: "'f AppwriteRealtime" where
  "initialRealtime = \<lparr>subscriptions = [], callbacks = Map.empty, client = \<lparr>channels = []\<rparr>\<rparr>"

definition subscribeToThreads :: "Config \<Rightarrow> string \<Rightarrow> 'f AppwriteRealtime \<Rightarrow> 'f AppwriteRealtime" where
  "subscribeToThreads cfg uid st =
     (if Map_has ''threads'' (subscriptions st) then st
      else
        let (unsubscribe, c) =
              client_subscribe (documents_channel cfg (THREADS_COLLECTION_ID cfg))
                (ThreadsListener uid) (client st)
        in st\<lparr>subscriptions := Map_set ''threads'' unsubscribe (subscriptions st), client := c\<rparr>)"

definition subscribeToMessages :: "Config \<Rightarrow> string \<Rightarrow> 'f AppwriteRealtime \<Rightarrow> 'f AppwriteRealtime" where
  "subscribeToMessages cfg uid st =
     (if Map_has ''messages'' (subscriptions st) then st
      else
        let (unsubscribe, c) =
              client_subscribe (documents_channel cfg (MESSAGES_COLLECTION_ID cfg))
                (MessagesListener uid) (client st)
        in st\<lparr>subscriptions := Map_set ''messages'' unsubscribe (subscriptions st), client := c\<rparr>)"

definition subscribeToMessageSummaries ::
  "Config \<Rightarrow> string \<Rightarrow> 'f AppwriteRealtime \<Rightarrow> 'f AppwriteRealtime" where
  "subscribeToMessageSummaries cfg uid st =
     (if Map_has ''message_summaries'' (subscriptions st) then st
      else
        let (unsubscribe, c) =
              client_subscribe (documents_channel cfg (MESSAGE_SUMMARIES_COLLECTION_ID cfg))
                (MessageSummariesListener uid) (client st)
        in st\<lparr>subscriptions := Map_set ''message_summaries'' unsubscribe (subscriptions st),
              client := c\<rparr>)"

definition subscribeToProjects :: "Config \<Rightarrow> string \<Rightarrow> 'f AppwriteRealtime \<Rightarrow> 'f AppwriteRealtime" where
  "subscribeToProjects cfg uid st =
     (if Map_has ''projects'' (subscriptions st) then st
      else
        let (unsubscribe, c) =
              client_subscribe (documents_channel cfg (PROJECTS_COLLECTION_ID cfg))
                (ProjectsListener uid) (client st)
        in st\<lparr>subscriptions := Map_set ''projects'' unsubscribe (subscriptions st), client := c\<rparr>)"

definition subscribeToAll :: "Config \<Rightarrow> string \<Rightarrow> 'f AppwriteRealtime \<Rightarrow> 'f AppwriteRealtime" where
  "subscribeToAll cfg uid st =
     subscribeToProjects cfg uid
       (subscribeToMessageSummaries cfg uid
         (subscribeToMessages cfg uid
           (subscribeToThreads cfg uid st)))"

section \<open>Properties of the deduplication primitive\<close>

subsection \<open>The index search and the map\<close>

lemma findIndex_ge: "- 1 \<le> findIndex P xs"
  by (induction xs) (auto simp: Let_def)

lemma findIndex_neg_iff: "findIndex P xs < 0 \<longleftrightarrow> (\<forall>x\<in>set xs. \<not> P x)"
  by (induction xs) (auto simp: Let_def)

lemma findIndex_none: "findIndex P xs = - 1 \<longleftrightarrow> (\<forall>x\<in>set xs. \<not> P x)"
  using findIndex_ge [of P xs] findIndex_neg_iff [of P xs] by linarith

lemma findIndex_found:
  "\<exists>x\<in>set xs. P x \<Longrightarrow> 0 \<le> findIndex P xs \<and> findIndex P xs < int (length xs)"
proof (induction xs)
  case Nil then show ?case by simp
next
  case (Cons a xs)
  show ?case
  proof (cases "P a")
    case True then show ?thesis by simp
  next
    case False
    with Cons.prems have "\<exists>x\<in>set xs. P x" by auto
    from Cons.IH [OF this] False show ?thesis by (simp add: Let_def)
  qed
qed

lemma findIndex_append: "\<exists>x\<in>set xs. P x \<Longrightarrow> findIndex P (xs @ ys) = findIndex P xs"
proof (induction xs)
  case Nil then show ?case by simp
next
  case (Cons a xs)
  show ?case
  proof (cases "P a")
    case True then show ?thesis by simp
  next
    case False
    with Cons.prems have "\<exists>x\<in>set xs. P x" by auto
    from Cons.IH [OF this] False show ?thesis by (simp add: Let_def)
  qed
qed

lemma map_of_Map_set: "map_of (Map_set k v m) = (map_of m)(k \<mapsto> v)"
  by (induction m) (auto simp: fun_eq_iff)

lemma Map_set_new: "map_of m k = None \<Longrightarrow> Map_set k v m = m @ [(k, v)]"
  by (induction m) (auto split: if_splits)

lemma map_fst_Map_set_old: "map_of m k = Some e \<Longrightarrow> map fst (Map_set k v m) = map fst m"
  by (induction m) (auto split: if_splits)

lemma set_Map_set_old:
  "distinct (map fst m) \<Longrightarrow> map_of m k = Some e \<Longrightarrow>
   set (Map_set k v m) = insert (k, v) (set m - {(k, e)})"
  by (induction m) (force split: if_splits simp: rev_image_eqI)+

lemma kept_in_snoc_other:
  "kept_in pre r \<Longrightarrow> id' m \<noteq> id' r \<or> length (content m) < length (content r) \<Longrightarrow> kept_in (pre @ [m]) r"
  unfolding kept_in_def
proof (elim exE conjE)
  fix ys zs
  assume h: "id' m \<noteq> id' r \<or> length (content m) < length (content r)"
    and p: "pre = ys @ r # zs"
    and a: "\<forall>m\<in>set ys. id' m = id' r \<longrightarrow> length (content m) \<le> length (content r)"
    and b: "\<forall>m\<in>set zs. id' m = id' r \<longrightarrow> length (content m) < length (content r)"
  from p have "pre @ [m] = ys @ r # (zs @ [m])" by simp
  moreover from b h have "\<forall>x\<in>set (zs @ [m]). id' x = id' r \<longrightarrow> length (content x) < length (content r)"
    by auto
  ultimately show "\<exists>ys zs. pre @ [m] = ys @ r # zs \<and>
      (\<forall>m\<in>set ys. id' m = id' r \<longrightarrow> length (content m) \<le> length (content r)) \<and>
      (\<forall>m\<in>set zs. id' m = id' r \<longrightarrow> length (content m) < length (content r))"
    using a by blast
qed

lemma kept_in_mem: "kept_in pre r \<Longrightarrow> r \<in> set pre"
  by (auto simp: kept_in_def)

lemma kept_in_max: "kept_in pre r \<Longrightarrow> m \<in> set pre \<Longrightarrow> id' m = id' r \<Longrightarrow> length (content m) \<le> length (content r)"
  by (fastforce simp: kept_in_def)

lemma kept_in_snoc_new:
  "\<forall>x\<in>set pre. id' x = id' m \<longrightarrow> length (content x) \<le> length (content m) \<Longrightarrow> kept_in (pre @ [m]) m"
  unfolding kept_in_def by (rule exI [of _ pre], rule exI [of _ "[]"]) simp

subsection \<open>The invariant of the pass\<close>

lemma seen_inv_lookup:
  assumes "seen_inv pre seen" "map_of seen k = Some e"
  shows "id' e = k" "kept_in pre e" "e \<in> set pre"
proof -
  from assms(2) have "(k, e) \<in> set seen" by (rule map_of_SomeD)
  with assms(1) show "id' e = k" "kept_in pre e" by (auto simp: seen_inv_def)
  then show "e \<in> set pre" by (simp add: kept_in_mem)
qed

lemma seen_inv_index_later:
  assumes "seen_inv pre seen" "map_of seen k = Some e" "messages = pre @ rest"
  shows "int (length pre) > findIndex (\<lambda>m. id' m = id' e) messages"
proof -
  have "e \<in> set pre" using assms(1,2) by (rule seen_inv_lookup)
  then have ex: "\<exists>x\<in>set pre. id' x = id' e" by blast
  from findIndex_found [OF ex] findIndex_append [OF ex, of rest] assms(3)
  show ?thesis by simp
qed

text \<open>Inside the loop the index test of the tie branch is always true.\<close>

lemma dedup_visit_simp:
  assumes "seen_inv pre seen" "messages = pre @ rest"
  shows "dedup_visit messages seen m (length pre) =
     (case map_of seen (id' m) of
        None \<Rightarrow> seen @ [(id' m, m)]
      | Some existing \<Rightarrow>
          if length (content existing) \<le> length (content m)
          then Map_set (id' m) m seen else seen)"
proof (cases "map_of seen (id' m)")
  case None
  then show ?thesis by (simp add: dedup_visit_def Map_set_new)
next
  case (Some e)
  from seen_inv_index_later [OF assms(1) Some assms(2)]
  show ?thesis using Some by (auto simp: dedup_visit_def)
qed

lemma seen_inv_step:
  assumes inv: "seen_inv pre seen" and msgs: "messages = pre @ rest"
  shows "seen_inv (pre @ [m]) (dedup_visit messages seen m (length pre))"
proof (cases "map_of seen (id' m)")
  case None
  then have fresh: "id' m \<notin> id' ` set pre"
    using inv by (auto simp: seen_inv_def map_of_eq_None_iff)
  have step: "dedup_visit messages seen m (length pre) = seen @ [(id' m, m)]"
    using None by (simp add: dedup_visit_simp [OF inv msgs])
  have "kept_in (pre @ [m]) m"
  proof (rule kept_in_snoc_new, intro ballI impI)
    fix x assume "x \<in> set pre" "id' x = id' m"
    then have "id' m \<in> id' ` set pre" by (metis imageI)
    with fresh show "length (content x) \<le> length (content m)" by simp
  qed
  moreover have "\<forall>(k, r)\<in>set seen. id' r = k \<and> kept_in (pre @ [m]) r"
  proof (clarify, intro conjI)
    fix k r assume kr: "(k, r) \<in> set seen"
    with inv show "id' r = k" by (auto simp: seen_inv_def)
    from kr inv have "kept_in pre r" by (auto simp: seen_inv_def)
    moreover from this have "r \<in> set pre" by (rule kept_in_mem)
    with fresh have "id' m \<noteq> id' r" by auto
    ultimately show "kept_in (pre @ [m]) r" by (simp add: kept_in_snoc_other)
  qed
  ultimately show ?thesis
    using inv fresh unfolding step seen_inv_def by auto
next
  case (Some e)
  note e = seen_inv_lookup [OF inv Some]
  have dist: "distinct (map fst seen)" and keys: "set (map fst seen) = id' ` set pre"
    and vals: "\<forall>(k, r)\<in>set seen. id' r = k \<and> kept_in pre r"
    using inv by (auto simp: seen_inv_def)
  have "id' m \<in> id' ` set pre"
    using e(1) e(3) by (metis imageI)
  then have keys': "id' ` set (pre @ [m]) = id' ` set pre"
    by auto
  show ?thesis
  proof (cases "length (content e) \<le> length (content m)")
    case True
    have step: "dedup_visit messages seen m (length pre) = Map_set (id' m) m seen"
      using Some True by (simp add: dedup_visit_simp [OF inv msgs])
    have m_kept: "kept_in (pre @ [m]) m"
    proof (rule kept_in_snoc_new, clarify)
      fix x assume "x \<in> set pre" "id' x = id' m"
      with kept_in_max [OF e(2), of x] e(1) True
      show "length (content x) \<le> length (content m)" by simp
    qed
    have "\<forall>(k, r)\<in>set (Map_set (id' m) m seen). id' r = k \<and> kept_in (pre @ [m]) r"
    proof (clarify, intro conjI)
      fix k r assume "(k, r) \<in> set (Map_set (id' m) m seen)"
      then have kr: "(k, r) = (id' m, m) \<or> ((k, r) \<in> set seen \<and> (k, r) \<noteq> (id' m, e))"
        by (auto simp: set_Map_set_old [OF dist Some])
      show "id' r = k" using kr vals by auto
      show "kept_in (pre @ [m]) r"
      proof (cases "(k, r) = (id' m, m)")
        case True then show ?thesis using m_kept by simp
      next
        case False
        with kr have in_seen: "(k, r) \<in> set seen" and ne: "(k, r) \<noteq> (id' m, e)" by auto
        from in_seen vals have r: "id' r = k" "kept_in pre r" by auto
        have "k \<noteq> id' m"
        proof
          assume "k = id' m"
          with in_seen dist have "map_of seen (id' m) = Some r" by simp
          with Some ne \<open>k = id' m\<close> show False by simp
        qed
        with r show ?thesis by (simp add: kept_in_snoc_other)
      qed
    qed
    then show ?thesis
      unfolding step seen_inv_def
      using dist keys keys' by (simp add: map_fst_Map_set_old [OF Some])
  next
    case False
    have step: "dedup_visit messages seen m (length pre) = seen"
      using Some False by (simp add: dedup_visit_simp [OF inv msgs])
    have "\<forall>(k, r)\<in>set seen. id' r = k \<and> kept_in (pre @ [m]) r"
    proof (clarify, intro conjI)
      fix k r assume in_seen: "(k, r) \<in> set seen"
      with vals show r: "id' r = k" by auto
      from in_seen vals have kept: "kept_in pre r" by auto
      show "kept_in (pre @ [m]) r"
      proof (cases "k = id' m")
        case True
        with in_seen dist have "map_of seen (id' m) = Some r" by simp
        with Some have "r = e" by simp
        with False kept show ?thesis by (simp add: kept_in_snoc_other)
      next
        case False
        with r kept show ?thesis by (simp add: kept_in_snoc_other)
      qed
    qed
    then show ?thesis
      unfolding step seen_inv_def using dist keys keys' by simp
  qed
qed

lemma seen_inv_loop:
  "seen_inv pre seen \<Longrightarrow> messages = pre @ rest \<Longrightarrow>
   seen_inv messages (forEach_indexed (dedup_visit messages) (length pre) rest seen)"
proof (induction rest arbitrary: pre seen)
  case Nil
  then show ?case by simp
next
  case (Cons m rest)
  have "seen_inv (pre @ [m]) (dedup_visit messages seen m (length pre))"
    using Cons.prems by (rule seen_inv_step)
  from Cons.IH [OF this] Cons.prems(2) show ?case by simp
qed

lemma seen_inv_empty: "seen_inv [] []"
  by (simp add: seen_inv_def)

lemma seen_inv_final: "seen_inv messages (forEach_indexed (dedup_visit messages) 0 messages [])"
  using seen_inv_loop [OF seen_inv_empty, of messages messages] by simp

lemma seen_inv_ids: "seen_inv pre seen \<Longrightarrow> map id' (map snd seen) = map fst seen"
  by (auto simp: seen_inv_def)

subsection \<open>The two passes agree\<close>

lemma seen_values_found:
  "\<forall>(k, r)\<in>set seen. id' r = k \<Longrightarrow> map_of seen k = Some e \<Longrightarrow>
   0 \<le> findIndex (\<lambda>x. id' x = k) (map snd seen) \<and>
   map snd seen ! nat (findIndex (\<lambda>x. id' x = k) (map snd seen)) = e \<and>
   (map snd seen)[nat (findIndex (\<lambda>x. id' x = k) (map snd seen)) := v] = map snd (Map_set k v seen)"
proof (induction seen)
  case Nil
  then show ?case by simp
next
  case (Cons p seen)
  obtain k' r' where p: "p = (k', r')" by (cases p)
  with Cons.prems(1) have r': "id' r' = k'" by simp
  show ?case
  proof (cases "k' = k")
    case True
    with Cons.prems(2) p r' show ?thesis by simp
  next
    case False
    with Cons.prems p have "\<forall>(k, r)\<in>set seen. id' r = k" "map_of seen k = Some e" by auto
    from Cons.IH [OF this] False p r' show ?thesis
      by (simp add: Let_def nat_add_distrib)
  qed
qed

lemma seen_values_absent:
  "\<forall>(k, r)\<in>set seen. id' r = k \<Longrightarrow>
   (findIndex (\<lambda>x. id' x = k) (map snd seen) = - 1) = (map_of seen k = None)"
  by (force simp: findIndex_none map_of_eq_None_iff)

lemma reduce_visit_sim:
  assumes inv: "seen_inv pre seen" and msgs: "messages = pre @ rest"
  shows "reduce_visit messages (map snd seen) m (length pre) =
         map snd (dedup_visit messages seen m (length pre))"
proof -
  have vals: "\<forall>(k, r)\<in>set seen. id' r = k" using inv by (auto simp: seen_inv_def)
  show ?thesis
  proof (cases "map_of seen (id' m)")
    case None
    with seen_values_absent [OF vals, of "id' m"] show ?thesis
      by (simp add: reduce_visit_def dedup_visit_def Map_set_new)
  next
    case (Some e)
    with seen_values_absent [OF vals, of "id' m"]
    have ne: "findIndex (\<lambda>x. id' x = id' m) (map snd seen) \<noteq> - 1" by simp
    note f = seen_values_found [OF vals Some, of m]
    show ?thesis
      using ne f Some by (simp add: reduce_visit_def dedup_visit_def Let_def)
  qed
qed

lemma reduce_loop_sim:
  "seen_inv pre seen \<Longrightarrow> messages = pre @ rest \<Longrightarrow>
   forEach_indexed (reduce_visit messages) (length pre) rest (map snd seen) =
   map snd (forEach_indexed (dedup_visit messages) (length pre) rest seen)"
proof (induction rest arbitrary: pre seen)
  case Nil
  then show ?case by simp
next
  case (Cons m rest)
  have inv': "seen_inv (pre @ [m]) (dedup_visit messages seen m (length pre))"
    using Cons.prems by (rule seen_inv_step)
  from Cons.IH [OF inv'] Cons.prems(2) reduce_visit_sim [OF Cons.prems, of m]
  show ?case by simp
qed

lemma deduplicatedMessages_eq: "deduplicatedMessages messages = deduplicateMessages messages"
  using reduce_loop_sim [OF seen_inv_empty, of messages messages]
  by (simp add: deduplicatedMessages_def deduplicateMessages_def)

lemma dedup_ids:
  "map id' (deduplicateMessages messages) =
   map fst (forEach_indexed (dedup_visit messages) 0 messages [])"
  unfolding deduplicateMessages_def by (rule seen_inv_ids [OF seen_inv_final])

lemma dedup_ids_distinct: "distinct (map id' (deduplicateMessages messages))"
  unfolding dedup_ids using seen_inv_final [of messages] by (simp add: seen_inv_def)

lemma dedup_ids_set: "set (map id' (deduplicateMessages messages)) = id' ` set messages"
  unfolding dedup_ids using seen_inv_final [of messages] by (simp add: seen_inv_def)

lemma dedup_kept:
  assumes "r \<in> set (deduplicateMessages messages)"
  shows "kept_in messages r"
proof -
  from assms obtain k where "(k, r) \<in> set (forEach_indexed (dedup_visit messages) 0 messages [])"
    by (auto simp: deduplicateMessages_def)
  with seen_inv_final [of messages] show ?thesis by (auto simp: seen_inv_def)
qed

lemma count_list_distinct:
  "distinct xs \<Longrightarrow> count_list xs k = (if k \<in> set xs then 1 else 0)"
  by (induction xs) auto

text \<open>
  Claim C1. Both passes return the same list. Every record \<open>r\<close> they keep stands in the
  input; no input record of the same id is longer than \<open>r\<close>, and every record of the same
  id that comes after \<open>r\<close> in the input is strictly shorter: among the records of an id
  the longest wins, and among the longest the last one. Every input record has a kept
  record of its id, at least as long as itself.
\<close>

theorem deduplicate_keeps_longest_then_latest:
  "deduplicatedMessages messages = deduplicateMessages messages \<and>
   (\<forall>r\<in>set (deduplicateMessages messages).
      \<exists>ys zs. messages = ys @ r # zs \<and>
        (\<forall>m\<in>set ys. id' m = id' r \<longrightarrow> length (content m) \<le> length (content r)) \<and>
        (\<forall>m\<in>set zs. id' m = id' r \<longrightarrow> length (content m) < length (content r))) \<and>
   (\<forall>m\<in>set messages. \<exists>r\<in>set (deduplicateMessages messages).
        id' r = id' m \<and> length (content m) \<le> length (content r))"
proof (intro conjI ballI)
  show "deduplicatedMessages messages = deduplicateMessages messages"
    by (rule deduplicatedMessages_eq)
next
  fix r assume "r \<in> set (deduplicateMessages messages)"
  then have "kept_in messages r" by (rule dedup_kept)
  then show "\<exists>ys zs. messages = ys @ r # zs \<and>
        (\<forall>m\<in>set ys. id' m = id' r \<longrightarrow> length (content m) \<le> length (content r)) \<and>
        (\<forall>m\<in>set zs. id' m = id' r \<longrightarrow> length (content m) < length (content r))"
    by (simp add: kept_in_def)
next
  fix m assume m: "m \<in> set messages"
  then have "id' m \<in> set (map id' (deduplicateMessages messages))"
    by (simp only: dedup_ids_set) (rule imageI)
  then obtain r where r: "r \<in> set (deduplicateMessages messages)" "id' r = id' m" by auto
  from kept_in_max [OF dedup_kept [OF r(1)] m] r(2)
  have "length (content m) \<le> length (content r)" by simp
  with r show "\<exists>r\<in>set (deduplicateMessages messages).
        id' r = id' m \<and> length (content m) \<le> length (content r)" by blast
qed

theorem deduplicate_keeps_longest_then_latest_witness:
  "deduplicateMessages
     [\<lparr>id' = ''a'', content = ''Hi''\<rparr>, \<lparr>id' = ''b'', content = ''x''\<rparr>,
      \<lparr>id' = ''a'', content = ''Yo''\<rparr>, \<lparr>id' = ''a'', content = ''H''\<rparr>] =
     [\<lparr>id' = ''a'', content = ''Yo''\<rparr>, \<lparr>id' = ''b'', content = ''x''\<rparr>] \<and>
   (\<exists>ys zs.
      [\<lparr>id' = ''a'', content = ''Hi''\<rparr>, \<lparr>id' = ''b'', content = ''x''\<rparr>,
       \<lparr>id' = ''a'', content = ''Yo''\<rparr>, \<lparr>id' = ''a'', content = ''H''\<rparr>] =
        ys @ \<lparr>id' = ''a'', content = ''Yo''\<rparr> # zs \<and>
      (\<forall>m\<in>set ys. id' m = ''a'' \<longrightarrow> length (content m) \<le> length ''Yo'') \<and>
      (\<forall>m\<in>set zs. id' m = ''a'' \<longrightarrow> length (content m) < length ''Yo''))"
proof -
  let ?xs = "[\<lparr>id' = ''a'', content = ''Hi''\<rparr>, \<lparr>id' = ''b'', content = ''x''\<rparr>,
              \<lparr>id' = ''a'', content = ''Yo''\<rparr>, \<lparr>id' = ''a'', content = ''H''\<rparr>]"
  have run: "deduplicateMessages ?xs =
      [\<lparr>id' = ''a'', content = ''Yo''\<rparr>, \<lparr>id' = ''b'', content = ''x''\<rparr>]"
    by (simp add: deduplicateMessages_def dedup_visit_def)
  then have mem: "\<lparr>id' = ''a'', content = ''Yo''\<rparr> \<in> set (deduplicateMessages ?xs)"
    by simp
  from deduplicate_keeps_longest_then_latest [of ?xs] mem
  have "\<exists>ys zs. ?xs = ys @ \<lparr>id' = ''a'', content = ''Yo''\<rparr> # zs \<and>
      (\<forall>m\<in>set ys. id' m = id' \<lparr>id' = ''a'', content = ''Yo''\<rparr> \<longrightarrow>
          length (content m) \<le> length (content \<lparr>id' = ''a'', content = ''Yo''\<rparr>)) \<and>
      (\<forall>m\<in>set zs. id' m = id' \<lparr>id' = ''a'', content = ''Yo''\<rparr> \<longrightarrow>
          length (content m) < length (content \<lparr>id' = ''a'', content = ''Yo''\<rparr>))"
    by blast
  with run show ?thesis by simp
qed

text \<open>
  Claim C3. In the output of either pass an id occurs exactly once if it occurs in the
  input, and not at all otherwise.
\<close>

theorem deduplicate_each_id_once:
  "count_list (map id' (deduplicateMessages messages)) k = (if k \<in> id' ` set messages then 1 else 0) \<and>
   count_list (map id' (deduplicatedMessages messages)) k = (if k \<in> id' ` set messages then 1 else 0)"
  using count_list_distinct [OF dedup_ids_distinct [of messages], of k] dedup_ids_set [of messages]
  by (simp add: deduplicatedMessages_eq)

subsection \<open>One record for an id\<close>

lemma filter_key_single:
  "distinct (map f xs) \<Longrightarrow> x \<in> set xs \<Longrightarrow> filter (\<lambda>y. f y = f x) xs = [x]"
proof (induction xs)
  case Nil
  then show ?case by simp
next
  case (Cons a xs)
  show ?case
  proof (cases "a = x")
    case True
    with Cons.prems(1) have "\<forall>y\<in>set xs. f y \<noteq> f x" by (metis distinct.simps(2) imageI list.simps(9) set_map)
    then have "filter (\<lambda>y. f y = f x) xs = []" by (simp add: filter_empty_conv)
    with True show ?thesis by simp
  next
    case False
    with Cons.prems have x: "x \<in> set xs" and d: "distinct (map f xs)" by auto
    from Cons.prems(1) x have "f a \<noteq> f x" by (metis distinct.simps(2) imageI list.simps(9) set_map)
    with Cons.IH [OF d x] show ?thesis by simp
  qed
qed

lemma dedup_filter_id:
  assumes "k \<in> id' ` set messages"
  shows "\<exists>r. filter (\<lambda>m. id' m = k) (deduplicateMessages messages) = [r] \<and>
             r \<in> set messages \<and> id' r = k"
proof -
  from assms have "k \<in> set (map id' (deduplicateMessages messages))"
    by (simp only: dedup_ids_set)
  then obtain r where r: "r \<in> set (deduplicateMessages messages)" "id' r = k" by auto
  from filter_key_single [OF dedup_ids_distinct r(1)] r(2)
  have "filter (\<lambda>m. id' m = k) (deduplicateMessages messages) = [r]" by simp
  moreover have "r \<in> set messages" using dedup_kept [OF r(1)] by (rule kept_in_mem)
  ultimately show ?thesis using r(2) by blast
qed

section \<open>Streaming broadcasts\<close>

text \<open>
  Claim C2, as the code has it. A broadcast of this thread from another session with
  \<^verbatim>\<open>isStreaming\<close> set always calls \<^verbatim>\<open>setMessages\<close>; the new list holds exactly one record
  of the broadcast's message id, and its content is the content of this broadcast,
  whatever was shown before: the payload delivered last wins, longer or shorter.
\<close>

theorem streaming_broadcast_last_delivered_wins:
  assumes "broadcastThreadId = thisThreadId" "sessionId st \<noteq> getSessionId" "isStreaming st"
  shows "\<exists>shown r.
     handleStreamingBroadcast thisThreadId getSessionId now broadcastThreadId msgId st prevMessages
       = Some shown \<and>
     filter (\<lambda>m. id' m = messageId st) shown = [r] \<and> content r = content_s st"
proof -
  define updated where "updated =
     map (\<lambda>msg. if id' msg = messageId st then msg\<lparr>content := content_s st\<rparr> else msg) prevMessages"
  define fresh :: UIMessage where "fresh =
     \<lparr>id' = messageId st, content = content_s st, role = ''assistant'',
      parts = [Part ''text'' (content_s st)], createdAt = Some now, webSearchResults = None,
      attachments = None, model = None, imgurl = Undefined, isImageGenerationLoading = False\<rparr>"
  define pushed where "pushed =
     (if \<not> list_ex (\<lambda>msg. id' msg = messageId st) prevMessages then updated @ [fresh] else updated)"
  have run: "handleStreamingBroadcast thisThreadId getSessionId now broadcastThreadId msgId st
      prevMessages = Some (deduplicateMessages pushed)"
    using assms by (simp add: handleStreamingBroadcast_def pushed_def updated_def fresh_def Let_def)
  have all: "\<forall>m\<in>set pushed. id' m = messageId st \<longrightarrow> content m = content_s st"
    by (auto simp: pushed_def updated_def fresh_def)
  have "messageId st \<in> id' ` set pushed"
  proof (cases "list_ex (\<lambda>msg. id' msg = messageId st) prevMessages")
    case True
    then obtain m where "m \<in> set prevMessages" "id' m = messageId st" by (auto simp: list_ex_iff)
    then have "m\<lparr>content := content_s st\<rparr> \<in> set updated" by (force simp: updated_def)
    then have "id' (m\<lparr>content := content_s st\<rparr>) \<in> id' ` set pushed"
      using True unfolding pushed_def by (simp only: if_not_P not_not) (rule imageI)
    then show ?thesis using \<open>id' m = messageId st\<close> by simp
  next
    case False
    have "id' fresh \<in> id' ` set pushed" using False unfolding pushed_def by simp
    then show ?thesis by (simp add: fresh_def)
  qed
  from dedup_filter_id [OF this] obtain r where
    r: "filter (\<lambda>m. id' m = messageId st) (deduplicateMessages pushed) = [r]"
       "r \<in> set pushed" "id' r = messageId st" by blast
  with all have "content r = content_s st" by blast
  with run r(1) show ?thesis by blast
qed

theorem streaming_broadcast_last_delivered_wins_witness:
  "sessionId \<lparr>threadId = ''t1'', messageId = ''m2'', sessionId = ''peer'',
      content_s = ''Once upon a'', isStreaming = True, lastUpdate = 900\<rparr> \<noteq> ''local'' \<and>
   isStreaming \<lparr>threadId = ''t1'', messageId = ''m2'', sessionId = ''peer'',
      content_s = ''Once upon a'', isStreaming = True, lastUpdate = 900\<rparr> \<and>
   (\<exists>shown r.
      handleStreamingBroadcast ''t1'' ''local'' (Abs_JSDate 1100) ''t1'' ''m2''
        \<lparr>threadId = ''t1'', messageId = ''m2'', sessionId = ''peer'',
         content_s = ''Once upon a'', isStreaming = True, lastUpdate = 900\<rparr>
        [\<lparr>id' = ''m2'', content = ''Once upon a time'', role = ''assistant'',
          parts = [Part ''text'' ''Once upon a time''], createdAt = Some (Abs_JSDate 1000),
          webSearchResults = None, attachments = None, model = None, imgurl = Undefined,
          isImageGenerationLoading = False\<rparr>] = Some shown \<and>
      filter (\<lambda>m. id' m = ''m2'') shown = [r] \<and> content r = ''Once upon a'')"
  using streaming_broadcast_last_delivered_wins
    [of "''t1''" "''t1''"
        "\<lparr>threadId = ''t1'', messageId = ''m2'', sessionId = ''peer'',
          content_s = ''Once upon a'', isStreaming = True, lastUpdate = 900\<rparr>"
        "''local''" "Abs_JSDate 1100" "''m2''"
        "[\<lparr>id' = ''m2'', content = ''Once upon a time'', role = ''assistant'',
           parts = [Part ''text'' ''Once upon a time''], createdAt = Some (Abs_JSDate 1000),
           webSearchResults = None, attachments = None, model = None, imgurl = Undefined,
           isImageGenerationLoading = False\<rparr>]"]
  by simp

text \<open>
  Claim C2 as stated fails. The peer's payload \<^verbatim>\<open>"Once upon a time"\<close> arrives first and is
  shown; the stale payload \<^verbatim>\<open>"Once upon a"\<close> arrives second and replaces it.
\<close>

theorem streaming_broadcast_reverts_counterexample:
  "messagesAfter []
     (handleStreamingBroadcast ''t1'' ''local'' (Abs_JSDate 1000) ''t1'' ''m2''
        \<lparr>threadId = ''t1'', messageId = ''m2'', sessionId = ''peer'',
         content_s = ''Once upon a time'', isStreaming = True, lastUpdate = 990\<rparr> []) =
     [\<lparr>id' = ''m2'', content = ''Once upon a time'', role = ''assistant'',
       parts = [Part ''text'' ''Once upon a time''], createdAt = Some (Abs_JSDate 1000),
       webSearchResults = None, attachments = None, model = None, imgurl = Undefined,
       isImageGenerationLoading = False\<rparr>] \<and>
   messagesAfter
     [\<lparr>id' = ''m2'', content = ''Once upon a time'', role = ''assistant'',
       parts = [Part ''text'' ''Once upon a time''], createdAt = Some (Abs_JSDate 1000),
       webSearchResults = None, attachments = None, model = None, imgurl = Undefined,
       isImageGenerationLoading = False\<rparr>]
     (handleStreamingBroadcast ''t1'' ''local'' (Abs_JSDate 1100) ''t1'' ''m2''
        \<lparr>threadId = ''t1'', messageId = ''m2'', sessionId = ''peer'',
         content_s = ''Once upon a'', isStreaming = True, lastUpdate = 900\<rparr>
        [\<lparr>id' = ''m2'', content = ''Once upon a time'', role = ''assistant'',
          parts = [Part ''text'' ''Once upon a time''], createdAt = Some (Abs_JSDate 1000),
          webSearchResults = None, attachments = None, model = None, imgurl = Undefined,
          isImageGenerationLoading = False\<rparr>]) =
     [\<lparr>id' = ''m2'', content = ''Once upon a'', role = ''assistant'',
       parts = [Part ''text'' ''Once upon a time''], createdAt = Some (Abs_JSDate 1000),
       webSearchResults = None, attachments = None, model = None, imgurl = Undefined,
       isImageGenerationLoading = False\<rparr>]"
  by (simp add: handleStreamingBroadcast_def messagesAfter_def deduplicateMessages_def
      dedup_visit_def)

text \<open>
  Claim C4. A broadcast whose \<^verbatim>\<open>sessionId\<close> is the local session id makes no call of
  \<^verbatim>\<open>setMessages\<close>: the list after the handler is the list before it, and so the same
  for any two such broadcasts.
\<close>

theorem self_broadcast_not_applied:
  assumes "sessionId st = getSessionId" "sessionId st' = getSessionId"
  shows "handleStreamingBroadcast thisThreadId getSessionId now broadcastThreadId msgId st
           prevMessages = None \<and>
         messagesAfter prevMessages
           (handleStreamingBroadcast thisThreadId getSessionId now broadcastThreadId msgId st
              prevMessages) = prevMessages \<and>
         messagesAfter prevMessages
           (handleStreamingBroadcast thisThreadId getSessionId now broadcastThreadId msgId st
              prevMessages) =
         messagesAfter prevMessages
           (handleStreamingBroadcast thisThreadId getSessionId now' broadcastThreadId' msgId' st'
              prevMessages)"
  using assms by (simp add: handleStreamingBroadcast_def messagesAfter_def)

theorem self_broadcast_not_applied_witness:
  "sessionId \<lparr>threadId = ''t1'', messageId = ''m2'', sessionId = ''local'',
      content_s = ''Once upon a time'', isStreaming = True, lastUpdate = 990\<rparr> = ''local'' \<and>
   handleStreamingBroadcast ''t1'' ''local'' (Abs_JSDate 1000) ''t1'' ''m2''
     \<lparr>threadId = ''t1'', messageId = ''m2'', sessionId = ''local'',
      content_s = ''Once upon a time'', isStreaming = True, lastUpdate = 990\<rparr>
     [\<lparr>id' = ''m2'', content = ''Once'', role = ''assistant'', parts = [Part ''text'' ''Once''],
       createdAt = Some (Abs_JSDate 900), webSearchResults = None, attachments = None, model = None,
       imgurl = Undefined, isImageGenerationLoading = False\<rparr>] = None"
  using self_broadcast_not_applied
    [of "\<lparr>threadId = ''t1'', messageId = ''m2'', sessionId = ''local'',
          content_s = ''Once upon a time'', isStreaming = True, lastUpdate = 990\<rparr>"
        "''local''"
        "\<lparr>threadId = ''t1'', messageId = ''m2'', sessionId = ''local'',
          content_s = ''Once upon a time'', isStreaming = True, lastUpdate = 990\<rparr>"
        "''t1''" "Abs_JSDate 1000" "''t1''" "''m2''"
        "[\<lparr>id' = ''m2'', content = ''Once'', role = ''assistant'',
           parts = [Part ''text'' ''Once''], createdAt = Some (Abs_JSDate 900), webSearchResults = None,
           attachments = None, model = None, imgurl = Undefined,
           isImageGenerationLoading = False\<rparr>]"]
  by simp

text \<open>
  Claim C10. A broadcast whose \<^verbatim>\<open>isStreaming\<close> flag is false makes no call of
  \<^verbatim>\<open>setMessages\<close>, from whatever session and for whatever thread: the list after the
  handler is the list before it.
\<close>

theorem terminal_broadcast_not_applied:
  assumes "\<not> isStreaming st"
  shows "handleStreamingBroadcast thisThreadId getSessionId now broadcastThreadId msgId st
           prevMessages = None \<and>
         messagesAfter prevMessages
           (handleStreamingBroadcast thisThreadId getSessionId now broadcastThreadId msgId st
              prevMessages) = prevMessages"
  using assms by (simp add: handleStreamingBroadcast_def messagesAfter_def)

theorem terminal_broadcast_not_applied_witness:
  "\<not> isStreaming \<lparr>threadId = ''t1'', messageId = ''m2'', sessionId = ''peer'',
      content_s = ''final text'', isStreaming = False, lastUpdate = 2000\<rparr> \<and>
   messagesAfter
     [\<lparr>id' = ''m2'', content = ''final'', role = ''assistant'', parts = [Part ''text'' ''final''],
       createdAt = Some (Abs_JSDate 900), webSearchResults = None, attachments = None, model = None,
       imgurl = Undefined, isImageGenerationLoading = False\<rparr>]
     (handleStreamingBroadcast ''t1'' ''local'' (Abs_JSDate 2010) ''t1'' ''m2''
        \<lparr>threadId = ''t1'', messageId = ''m2'', sessionId = ''peer'',
         content_s = ''final text'', isStreaming = False, lastUpdate = 2000\<rparr>
        [\<lparr>id' = ''m2'', content = ''final'', role = ''assistant'',
          parts = [Part ''text'' ''final''], createdAt = Some (Abs_JSDate 900), webSearchResults = None,
          attachments = None, model = None, imgurl = Undefined,
          isImageGenerationLoading = False\<rparr>]) =
     [\<lparr>id' = ''m2'', content = ''final'', role = ''assistant'', parts = [Part ''text'' ''final''],
       createdAt = Some (Abs_JSDate 900), webSearchResults = None, attachments = None, model = None,
       imgurl = Undefined, isImageGenerationLoading = False\<rparr>]"
  using terminal_broadcast_not_applied
    [of "\<lparr>threadId = ''t1'', messageId = ''m2'', sessionId = ''peer'',
          content_s = ''final text'', isStreaming = False, lastUpdate = 2000\<rparr>"
        "''t1''" "''local''" "Abs_JSDate 2010" "''t1''" "''m2''"
        "[\<lparr>id' = ''m2'', content = ''final'', role = ''assistant'',
           parts = [Part ''text'' ''final''], createdAt = Some (Abs_JSDate 900), webSearchResults = None,
           attachments = None, model = None, imgurl = Undefined,
           isImageGenerationLoading = False\<rparr>]"]
  by (simp add: messagesAfter_def)

section \<open>Merging durable-store notifications\<close>

text \<open>Every date of the model has a time value, so every sort key is a number.\<close>

lemma getTime_range: "- 8640000000000000 \<le> getTime d \<and> getTime d \<le> 8640000000000000"
  using Rep_JSDate [of d] by (simp add: getTime_def)

lemma set_Map_set_subset: "set (Map_set k v m) \<subseteq> insert (k, v) (set m)"
  by (induction m) (auto split: if_splits)

lemma id'_toUIMessage [simp]: "id' (toUIMessage d) = id_db d"
  by (simp add: toUIMessage_def)

lemma content_toUIMessage [simp]: "content (toUIMessage d) = content_db d"
  by (simp add: toUIMessage_def)

lemma imgurl_toUIMessage [simp]: "imgurl (toUIMessage d) = imgurl_db d"
  by (simp add: toUIMessage_def)

lemma map_of_entries_mem:
  "map_of (foldl (\<lambda>m (k, v). Map_set k v m) acc es) k = Some v \<Longrightarrow> (k, v) \<in> set acc \<union> set es"
proof (induction es arbitrary: acc)
  case Nil
  then show ?case by (simp add: map_of_SomeD)
next
  case (Cons e es)
  obtain k' v' where e: "e = (k', v')" by (cases e)
  from Cons.prems have "map_of (foldl (\<lambda>m (k, v). Map_set k v m) (Map_set k' v' acc) es) k = Some v"
    by (simp add: e)
  from Cons.IH [OF this] set_Map_set_subset [of k' v' acc] show ?case
    by (auto simp: e)
qed

lemma Map_of_entries_lookup:
  "map_of (Map_of_entries (map (\<lambda>msg. (id' msg, msg)) uiMessages)) k = Some d \<Longrightarrow>
   d \<in> set uiMessages \<and> id' d = k"
  unfolding Map_of_entries_def by (drule map_of_entries_mem) auto

lemma replaced_ids: "map id' (replaced uiMessages messages) = map id' messages"
  unfolding replaced_def
  by (induction messages) (auto split: option.splits dest: Map_of_entries_lookup)

lemma replaced_set: "set (replaced uiMessages messages) \<subseteq> set messages \<union> set uiMessages"
  unfolding replaced_def
  by (auto split: option.splits dest: Map_of_entries_lookup)

text \<open>What a call of \<^verbatim>\<open>setMessages\<close> by the handler carries.\<close>

lemma handleMessagesUpdated_Some:
  assumes "handleMessagesUpdated thisThreadId R messages updatedThreadId updatedMessages = Some new"
  shows "\<exists>pushed. new = deduplicateMessages (sort_key timeOf pushed) \<and>
           id' ` set pushed = id' ` set messages \<union>
              {k \<in> id_db ` set updatedMessages. k \<notin> id' ` set messages \<and> k \<notin> R} \<and>
           set pushed \<subseteq> set messages \<union> toUIMessage ` set updatedMessages"
proof -
  define ui where "ui = map toUIMessage updatedMessages"
  define isNew where "isNew = (\<lambda>dbMsg::UIMessage. id' dbMsg \<notin> set (map id' messages) \<and> id' dbMsg \<notin> R)"
  have new_eq: "filter isNew ui = map toUIMessage
      (filter (\<lambda>d. id_db d \<notin> id' ` set messages \<and> id_db d \<notin> R) updatedMessages)"
    by (simp add: ui_def isNew_def filter_map o_def)
  have ids_new: "id' ` set (filter isNew ui) =
      {k \<in> id_db ` set updatedMessages. k \<notin> id' ` set messages \<and> k \<notin> R}"
    unfolding new_eq by (auto simp: image_image)
  have set_new: "set (filter isNew ui) \<subseteq> toUIMessage ` set updatedMessages"
    by (auto simp: ui_def)
  from assms have "new = deduplicateMessages (sort_key timeOf (replaced ui messages @ filter isNew ui))
      \<or> new = deduplicateMessages (sort_key timeOf (messages @ filter isNew ui))"
    by (auto simp: handleMessagesUpdated_def Let_def replaced_def ui_def isNew_def
        split: if_splits)
  then show ?thesis
  proof
    assume n: "new = deduplicateMessages (sort_key timeOf (replaced ui messages @ filter isNew ui))"
    have "id' ` set (replaced ui messages) = id' ` set messages"
      using replaced_ids [of ui messages] by (metis list.set_map)
    with ids_new have "id' ` set (replaced ui messages @ filter isNew ui) = id' ` set messages \<union>
              {k \<in> id_db ` set updatedMessages. k \<notin> id' ` set messages \<and> k \<notin> R}"
      by (simp add: image_Un)
    moreover have "set (replaced ui messages @ filter isNew ui) \<subseteq>
        set messages \<union> toUIMessage ` set updatedMessages"
      using replaced_set [of ui messages] set_new by (auto simp: ui_def)
    ultimately show ?thesis using n by blast
  next
    assume n: "new = deduplicateMessages (sort_key timeOf (messages @ filter isNew ui))"
    from ids_new have "id' ` set (messages @ filter isNew ui) = id' ` set messages \<union>
              {k \<in> id_db ` set updatedMessages. k \<notin> id' ` set messages \<and> k \<notin> R}"
      by (simp add: image_Un)
    moreover have "set (messages @ filter isNew ui) \<subseteq>
        set messages \<union> toUIMessage ` set updatedMessages"
      using set_new by auto
    ultimately show ?thesis using n by blast
  qed
qed

lemma handleMessagesUpdated_ids:
  assumes "handleMessagesUpdated thisThreadId R messages updatedThreadId updatedMessages = Some new"
  shows "id' ` set new = id' ` set messages \<union>
              {k \<in> id_db ` set updatedMessages. k \<notin> id' ` set messages \<and> k \<notin> R}"
proof -
  from handleMessagesUpdated_Some [OF assms] obtain pushed where
    p: "new = deduplicateMessages (sort_key timeOf pushed)"
       "id' ` set pushed = id' ` set messages \<union>
              {k \<in> id_db ` set updatedMessages. k \<notin> id' ` set messages \<and> k \<notin> R}" by blast
  have "id' ` set new = id' ` set (sort_key timeOf pushed)"
    using dedup_ids_set [of "sort_key timeOf pushed"] p(1) by simp
  with p(2) show ?thesis by simp
qed

lemma fireTimers_expired:
  "now + 2000 \<le> later \<Longrightarrow>
   messageId' \<notin> recentlyAppendedMessages (fireTimers later (trackAppendedMessage now messageId' t))"
  by (force simp: fireTimers_def trackAppendedMessage_def)

lemma trackAppendedMessage_tracked:
  "messageId' \<in> recentlyAppendedMessages (trackAppendedMessage now messageId' t)"
  by (simp add: trackAppendedMessage_def)

lemma echo_of_tracked_not_appended:
  assumes "k \<in> recentlyAppended" "k \<notin> id' ` set messages"
  shows "k \<notin> id' ` set (messagesAfter messages
                  (handleMessagesUpdated thisThreadId recentlyAppended messages updatedThreadId
                     updatedMessages))"
proof (cases "handleMessagesUpdated thisThreadId recentlyAppended messages updatedThreadId
                     updatedMessages")
  case None
  with assms show ?thesis by (simp add: messagesAfter_def)
next
  case (Some new)
  from handleMessagesUpdated_ids [OF Some] assms show ?thesis
    using Some by (simp add: messagesAfter_def)
qed

lemma echo_merge_single:
  assumes one: "filter (\<lambda>m. id' m = id' m1) messages = [m1]"
      and echo: "\<forall>d\<in>set updatedMessages. id_db d = id' m1 \<longrightarrow> content_db d = content m1"
  shows "\<exists>r. filter (\<lambda>m. id' m = id' m1)
               (messagesAfter messages
                  (handleMessagesUpdated thisThreadId recentlyAppended messages updatedThreadId
                     updatedMessages)) = [r] \<and>
             content r = content m1"
proof (cases "handleMessagesUpdated thisThreadId recentlyAppended messages updatedThreadId
                     updatedMessages")
  case None
  with one show ?thesis by (simp add: messagesAfter_def)
next
  case (Some new)
  from handleMessagesUpdated_Some [OF Some] obtain pushed where
    p: "new = deduplicateMessages (sort_key timeOf pushed)"
       "id' ` set pushed = id' ` set messages \<union>
              {k \<in> id_db ` set updatedMessages. k \<notin> id' ` set messages \<and> k \<notin> recentlyAppended}"
       "set pushed \<subseteq> set messages \<union> toUIMessage ` set updatedMessages" by blast
  have m1: "m1 \<in> set messages"
  proof -
    have "m1 \<in> set (filter (\<lambda>m. id' m = id' m1) messages)" by (simp add: one)
    then show ?thesis by simp
  qed
  have only: "\<forall>m\<in>set messages. id' m = id' m1 \<longrightarrow> m = m1"
  proof (intro ballI impI)
    fix m assume "m \<in> set messages" "id' m = id' m1"
    then have "m \<in> set (filter (\<lambda>m. id' m = id' m1) messages)" by simp
    then show "m = m1" by (simp add: one)
  qed
  have "id' m1 \<in> id' ` set pushed" using m1 p(2) by blast
  then have "id' m1 \<in> id' ` set (sort_key timeOf pushed)" by simp
  from dedup_filter_id [OF this] p(1) obtain r where
    r: "filter (\<lambda>m. id' m = id' m1) new = [r]" "r \<in> set pushed" "id' r = id' m1" by auto
  from r(2) p(3) have "r \<in> set messages \<or> r \<in> toUIMessage ` set updatedMessages" by blast
  then have "content r = content m1"
  proof
    assume "r \<in> set messages"
    with only r(3) have "r = m1" by blast
    then show ?thesis by simp
  next
    assume "r \<in> toUIMessage ` set updatedMessages"
    then obtain d where "d \<in> set updatedMessages" "r = toUIMessage d" by blast
    with echo r(3) show ?thesis by simp
  qed
  with r(1) Some show ?thesis by (simp add: messagesAfter_def)
qed

text \<open>
  Claim C5. The local list holds \<open>m1\<close> as its only record of that id, and every incoming
  record of that id has the content of \<open>m1\<close>. Then the list after the handler, whether
  or not it calls \<^verbatim>\<open>setMessages\<close>, holds exactly one record of that id, with the content
  of \<open>m1\<close>. Tracking the id puts it in the tracked set, and the timer armed by the
  tracking takes it out once 2000 ms have passed. While an id is tracked, a handler
  whose list does not hold the id yet does not append the incoming record of that id.
\<close>

theorem echo_of_local_append_not_duplicated:
  assumes "filter (\<lambda>m. id' m = id' m1) messages = [m1]"
      and "\<forall>d\<in>set updatedMessages. id_db d = id' m1 \<longrightarrow> content_db d = content m1"
  shows "(\<exists>r. filter (\<lambda>m. id' m = id' m1)
               (messagesAfter messages
                  (handleMessagesUpdated thisThreadId recentlyAppended messages updatedThreadId
                     updatedMessages)) = [r] \<and>
             content r = content m1) \<and>
         id' m1 \<in> recentlyAppendedMessages (trackAppendedMessage now (id' m1) t) \<and>
         (now + 2000 \<le> later \<longrightarrow>
            id' m1 \<notin> recentlyAppendedMessages
              (fireTimers later (trackAppendedMessage now (id' m1) t))) \<and>
         (id' m1 \<in> recentlyAppended \<and> id' m1 \<notin> id' ` set stale \<longrightarrow>
            id' m1 \<notin> id' ` set (messagesAfter stale
                  (handleMessagesUpdated thisThreadId recentlyAppended stale updatedThreadId
                     updatedMessages)))"
  using echo_merge_single [OF assms] trackAppendedMessage_tracked fireTimers_expired
    echo_of_tracked_not_appended
  by blast

theorem echo_of_local_append_not_duplicated_witness:
  "filter (\<lambda>m. id' m = ''m1'')
     [\<lparr>id' = ''m1'', content = ''Hello'', role = ''user'',
       parts = [Part ''text'' ''Hello''], createdAt = Some (Abs_JSDate 100), webSearchResults = None,
       attachments = None, model = None, imgurl = Undefined,
       isImageGenerationLoading = False\<rparr>] =
     [\<lparr>id' = ''m1'', content = ''Hello'', role = ''user'',
       parts = [Part ''text'' ''Hello''], createdAt = Some (Abs_JSDate 100), webSearchResults = None,
       attachments = None, model = None, imgurl = Undefined,
       isImageGenerationLoading = False\<rparr>] \<and>
   map (\<lambda>d. (id_db d, content_db d))
     [\<lparr>id_db = ''m1'', role_db = ''user'', content_db = ''Hello'', parts_db = None,
     createdAt_db = Some (Abs_JSDate 100), webSearchResults_db = None, attachments_db = None,
     model_db = None, imgurl_db = Null\<rparr>] = [(''m1'', ''Hello'')] \<and>
   (\<exists>r. filter (\<lambda>m. id' m = ''m1'')
          (messagesAfter
             [\<lparr>id' = ''m1'', content = ''Hello'', role = ''user'',
               parts = [Part ''text'' ''Hello''], createdAt = Some (Abs_JSDate 100), webSearchResults = None,
               attachments = None, model = None, imgurl = Undefined,
               isImageGenerationLoading = False\<rparr>]
             (handleMessagesUpdated ''t1'' {''m1''}
                [\<lparr>id' = ''m1'', content = ''Hello'', role = ''user'',
                  parts = [Part ''text'' ''Hello''], createdAt = Some (Abs_JSDate 100), webSearchResults = None,
                  attachments = None, model = None, imgurl = Undefined,
                  isImageGenerationLoading = False\<rparr>]
                ''t1''
                [\<lparr>id_db = ''m1'', role_db = ''user'', content_db = ''Hello'', parts_db = None,
                 createdAt_db = Some (Abs_JSDate 100), webSearchResults_db = None, attachments_db = None,
                 model_db = None, imgurl_db = Null\<rparr>])) = [r] \<and>
        content r = ''Hello'') \<and>
   ''m1'' \<in> recentlyAppendedMessages
      (trackAppendedMessage 0 ''m1'' \<lparr>recentlyAppendedMessages = {}, timers = []\<rparr>) \<and>
   ''m1'' \<notin> recentlyAppendedMessages
      (fireTimers 2000
         (trackAppendedMessage 0 ''m1'' \<lparr>recentlyAppendedMessages = {}, timers = []\<rparr>))"
  using echo_of_local_append_not_duplicated
    [of "\<lparr>id' = ''m1'', content = ''Hello'', role = ''user'',
          parts = [Part ''text'' ''Hello''], createdAt = Some (Abs_JSDate 100), webSearchResults = None,
          attachments = None, model = None, imgurl = Undefined,
          isImageGenerationLoading = False\<rparr>"
        "[\<lparr>id' = ''m1'', content = ''Hello'', role = ''user'',
           parts = [Part ''text'' ''Hello''], createdAt = Some (Abs_JSDate 100), webSearchResults = None,
           attachments = None, model = None, imgurl = Undefined,
           isImageGenerationLoading = False\<rparr>]"
        "[\<lparr>id_db = ''m1'', role_db = ''user'', content_db = ''Hello'', parts_db = None,
          createdAt_db = Some (Abs_JSDate 100), webSearchResults_db = None, attachments_db = None,
          model_db = None, imgurl_db = Null\<rparr>]"
        "''t1''" "{''m1''}" "''t1''" 0 "\<lparr>recentlyAppendedMessages = {}, timers = []\<rparr>" 2000
        "[]"]
  by simp

lemma dedup_loop_distinct:
  "distinct (map id' (pre @ rest)) \<Longrightarrow>
   forEach_indexed (dedup_visit messages) i rest (map (\<lambda>m. (id' m, m)) pre) =
     map (\<lambda>m. (id' m, m)) (pre @ rest)"
proof (induction rest arbitrary: pre i)
  case Nil
  then show ?case by simp
next
  case (Cons m rest)
  from Cons.prems have "id' m \<notin> id' ` set pre" by auto
  then have "map_of (map (\<lambda>m. (id' m, m)) pre) (id' m) = None"
    by (simp add: map_of_eq_None_iff image_image)
  then have "dedup_visit messages (map (\<lambda>m. (id' m, m)) pre) m i = map (\<lambda>m. (id' m, m)) (pre @ [m])"
    by (simp add: dedup_visit_def Map_set_new)
  moreover from Cons.prems have "distinct (map id' ((pre @ [m]) @ rest))" by simp
  ultimately show ?case using Cons.IH [of "pre @ [m]" "Suc i"] by simp
qed

lemma dedup_distinct_id: "distinct (map id' messages) \<Longrightarrow> deduplicateMessages messages = messages"
  using dedup_loop_distinct [of "[]" messages messages 0]
  by (simp add: deduplicateMessages_def o_def)

lemma handleMessagesUpdated_empty:
  "handleMessagesUpdated thisThreadId R messages thisThreadId [] =
     (if \<forall>m\<in>set messages. id' m \<in> R then None
      else Some (deduplicateMessages (sort_key timeOf messages)))"
  by (auto simp: handleMessagesUpdated_def list_ex_iff)

lemma needsUpdate_D:
  assumes "needsUpdate messages dbMsg"
  shows "\<exists>m\<in>set messages. id' m = id' dbMsg \<and>
           (content m \<noteq> content dbMsg \<or> imgurl m \<noteq> imgurl dbMsg \<or>
            ((includes' (content m) ''Generating your image'' \<or> isImageGenerationLoading m) \<and>
             truthy (imgurl dbMsg) \<and> \<not> includes' (content dbMsg) ''Generating your image''))"
proof (cases "find (\<lambda>msg. id' msg = id' dbMsg) messages")
  case None
  with assms show ?thesis by (simp add: needsUpdate_def)
next
  case (Some m)
  then have "m \<in> set messages" "id' m = id' dbMsg"
    by (auto simp: find_Some_iff)
  with assms Some show ?thesis
    by (intro bexI [of _ m]) (auto simp: needsUpdate_def Let_def)
qed

text \<open>
  The update test compares the image URLs strictly: a local record without the property
  and an incoming record whose property is \<^verbatim>\<open>null\<close> differ, and the handler replaces the
  record.
\<close>

lemma absent_imgurl_is_not_null:
  "handleMessagesUpdated ''t1'' {''m1''}
     [\<lparr>id' = ''m1'', content = ''Hello'', role = ''user'',
       parts = [Part ''text'' ''Hello''], createdAt = Some (Abs_JSDate 100),
       webSearchResults = None, attachments = None, model = None, imgurl = Undefined,
       isImageGenerationLoading = False\<rparr>]
     ''t1''
     [\<lparr>id_db = ''m1'', role_db = ''user'', content_db = ''Hello'', parts_db = None,
       createdAt_db = Some (Abs_JSDate 100), webSearchResults_db = None,
       attachments_db = None, model_db = None, imgurl_db = Null\<rparr>] =
   Some
     [\<lparr>id' = ''m1'', content = ''Hello'', role = ''user'',
       parts = [Part ''text'' ''Hello''], createdAt = Some (Abs_JSDate 100),
       webSearchResults = None, attachments = None, model = None, imgurl = Null,
       isImageGenerationLoading = False\<rparr>]"
  by (simp add: handleMessagesUpdated_def needsUpdate_def toUIMessage_def Map_of_entries_def
      deduplicateMessages_def dedup_visit_def truthy_def)

text \<open>
  Claim C8, as the code has it, for messages whose creation dates are valid. With an
  empty incoming list the handler makes no call of \<^verbatim>\<open>setMessages\<close> exactly when every
  id of the current list is tracked; otherwise it sets the list to the current list
  sorted by creation time and deduplicated, which is the current list when its ids are
  distinct and it is sorted already. Whatever the incoming list, \<^verbatim>\<open>setMessages\<close> is
  called only for the own thread and only when an incoming id is neither in the list
  nor tracked, or an id of the list is neither incoming nor tracked, or an incoming
  record and a list record of the same id differ in content or in image URL under
  \<^verbatim>\<open>!==\<close> (a missing URL and a \<^verbatim>\<open>null\<close> one differ), or the incoming record completes a
  loading image.
\<close>

theorem reconcile_empty_incoming:
  "handleMessagesUpdated thisThreadId R messages thisThreadId [] =
     (if \<forall>m\<in>set messages. id' m \<in> R then None
      else Some (deduplicateMessages (sort_key timeOf messages))) \<and>
   (distinct (map id' messages) \<and> sorted (map timeOf messages) \<longrightarrow>
      messagesAfter messages (handleMessagesUpdated thisThreadId R messages thisThreadId []) = messages) \<and>
   (handleMessagesUpdated thisThreadId R messages updatedThreadId updatedMessages \<noteq> None \<longrightarrow>
      updatedThreadId = thisThreadId \<and>
      ((\<exists>d\<in>set updatedMessages. id_db d \<notin> id' ` set messages \<and> id_db d \<notin> R) \<or>
       (\<exists>m\<in>set messages. id' m \<notin> id_db ` set updatedMessages \<and> id' m \<notin> R) \<or>
       (\<exists>d\<in>set updatedMessages. \<exists>m\<in>set messages. id' m = id_db d \<and>
           (content m \<noteq> content_db d \<or> imgurl m \<noteq> imgurl_db d \<or>
            ((includes' (content m) ''Generating your image'' \<or> isImageGenerationLoading m) \<and>
             truthy (imgurl_db d) \<and> \<not> includes' (content_db d) ''Generating your image'')))))"
proof (intro conjI impI)
  show "handleMessagesUpdated thisThreadId R messages thisThreadId [] =
     (if \<forall>m\<in>set messages. id' m \<in> R then None
      else Some (deduplicateMessages (sort_key timeOf messages)))"
    by (rule handleMessagesUpdated_empty)
next
  assume a: "distinct (map id' messages) \<and> sorted (map timeOf messages)"
  then have "sort_key timeOf messages = messages" by (simp add: sort_key_id_if_sorted)
  with a have "deduplicateMessages (sort_key timeOf messages) = messages"
    by (simp add: dedup_distinct_id)
  then show "messagesAfter messages (handleMessagesUpdated thisThreadId R messages thisThreadId []) = messages"
    by (simp add: handleMessagesUpdated_empty messagesAfter_def)
next
  assume a: "handleMessagesUpdated thisThreadId R messages updatedThreadId updatedMessages \<noteq> None"
  then show "updatedThreadId = thisThreadId"
    by (auto simp: handleMessagesUpdated_def split: if_splits)
  have ids_ui: "id' ` toUIMessage ` set updatedMessages = id_db ` set updatedMessages"
    by (auto simp: image_image)
  from a consider
      (new) "\<exists>d\<in>set updatedMessages. id_db d \<notin> id' ` set messages \<and> id_db d \<notin> R"
    | (missing) "\<exists>m\<in>set messages. id' m \<notin> id_db ` set updatedMessages \<and> id' m \<notin> R"
    | (updated) "\<exists>d\<in>set updatedMessages. needsUpdate messages (toUIMessage d)"
    by (auto simp: handleMessagesUpdated_def Let_def list_ex_iff ids_ui split: if_splits)
  then show "(\<exists>d\<in>set updatedMessages. id_db d \<notin> id' ` set messages \<and> id_db d \<notin> R) \<or>
       (\<exists>m\<in>set messages. id' m \<notin> id_db ` set updatedMessages \<and> id' m \<notin> R) \<or>
       (\<exists>d\<in>set updatedMessages. \<exists>m\<in>set messages. id' m = id_db d \<and>
           (content m \<noteq> content_db d \<or> imgurl m \<noteq> imgurl_db d \<or>
            ((includes' (content m) ''Generating your image'' \<or> isImageGenerationLoading m) \<and>
             truthy (imgurl_db d) \<and> \<not> includes' (content_db d) ''Generating your image'')))"
  proof cases
    case new then show ?thesis by blast
  next
    case missing then show ?thesis by blast
  next
    case updated
    then obtain d where d: "d \<in> set updatedMessages" "needsUpdate messages (toUIMessage d)" by blast
    from needsUpdate_D [OF d(2)] d(1) show ?thesis
      by (simp only: id'_toUIMessage content_toUIMessage imgurl_toUIMessage) blast
  qed
qed

theorem reconcile_empty_incoming_witness:
  "distinct (map id'
     [\<lparr>id' = ''a'', content = ''first'', role = ''user'',
       parts = [Part ''text'' ''first''], createdAt = Some (Abs_JSDate 1), webSearchResults = None,
       attachments = None, model = None, imgurl = Undefined,
       isImageGenerationLoading = False\<rparr>,
      \<lparr>id' = ''b'', content = ''second'', role = ''assistant'',
       parts = [Part ''text'' ''second''], createdAt = Some (Abs_JSDate 2), webSearchResults = None,
       attachments = None, model = None, imgurl = Undefined,
       isImageGenerationLoading = False\<rparr>]) \<and>
   sorted (map timeOf
     [\<lparr>id' = ''a'', content = ''first'', role = ''user'',
       parts = [Part ''text'' ''first''], createdAt = Some (Abs_JSDate 1), webSearchResults = None,
       attachments = None, model = None, imgurl = Undefined,
       isImageGenerationLoading = False\<rparr>,
      \<lparr>id' = ''b'', content = ''second'', role = ''assistant'',
       parts = [Part ''text'' ''second''], createdAt = Some (Abs_JSDate 2), webSearchResults = None,
       attachments = None, model = None, imgurl = Undefined,
       isImageGenerationLoading = False\<rparr>]) \<and>
   handleMessagesUpdated ''t1'' {}
     [\<lparr>id' = ''a'', content = ''first'', role = ''user'',
       parts = [Part ''text'' ''first''], createdAt = Some (Abs_JSDate 1), webSearchResults = None,
       attachments = None, model = None, imgurl = Undefined,
       isImageGenerationLoading = False\<rparr>,
      \<lparr>id' = ''b'', content = ''second'', role = ''assistant'',
       parts = [Part ''text'' ''second''], createdAt = Some (Abs_JSDate 2), webSearchResults = None,
       attachments = None, model = None, imgurl = Undefined,
       isImageGenerationLoading = False\<rparr>]
     ''t1'' [] \<noteq> None \<and>
   messagesAfter
     [\<lparr>id' = ''a'', content = ''first'', role = ''user'',
       parts = [Part ''text'' ''first''], createdAt = Some (Abs_JSDate 1), webSearchResults = None,
       attachments = None, model = None, imgurl = Undefined,
       isImageGenerationLoading = False\<rparr>,
      \<lparr>id' = ''b'', content = ''second'', role = ''assistant'',
       parts = [Part ''text'' ''second''], createdAt = Some (Abs_JSDate 2), webSearchResults = None,
       attachments = None, model = None, imgurl = Undefined,
       isImageGenerationLoading = False\<rparr>]
     (handleMessagesUpdated ''t1'' {}
        [\<lparr>id' = ''a'', content = ''first'', role = ''user'',
          parts = [Part ''text'' ''first''], createdAt = Some (Abs_JSDate 1), webSearchResults = None,
          attachments = None, model = None, imgurl = Undefined,
          isImageGenerationLoading = False\<rparr>,
         \<lparr>id' = ''b'', content = ''second'', role = ''assistant'',
          parts = [Part ''text'' ''second''], createdAt = Some (Abs_JSDate 2), webSearchResults = None,
          attachments = None, model = None, imgurl = Undefined,
          isImageGenerationLoading = False\<rparr>]
        ''t1'' []) =
     [\<lparr>id' = ''a'', content = ''first'', role = ''user'',
       parts = [Part ''text'' ''first''], createdAt = Some (Abs_JSDate 1), webSearchResults = None,
       attachments = None, model = None, imgurl = Undefined,
       isImageGenerationLoading = False\<rparr>,
      \<lparr>id' = ''b'', content = ''second'', role = ''assistant'',
       parts = [Part ''text'' ''second''], createdAt = Some (Abs_JSDate 2), webSearchResults = None,
       attachments = None, model = None, imgurl = Undefined,
       isImageGenerationLoading = False\<rparr>] \<and>
   (\<exists>m\<in>set
        [\<lparr>id' = ''a'', content = ''first'', role = ''user'',
          parts = [Part ''text'' ''first''], createdAt = Some (Abs_JSDate 1), webSearchResults = None,
          attachments = None, model = None, imgurl = Undefined,
          isImageGenerationLoading = False\<rparr>,
         \<lparr>id' = ''b'', content = ''second'', role = ''assistant'',
          parts = [Part ''text'' ''second''], createdAt = Some (Abs_JSDate 2), webSearchResults = None,
          attachments = None, model = None, imgurl = Undefined,
          isImageGenerationLoading = False\<rparr>].
      id' m \<notin> id_db ` set ([]::DBMessage list) \<and> id' m \<notin> {})"
proof -
  let ?L =
    "[\<lparr>id' = ''a'', content = ''first'', role = ''user'',
       parts = [Part ''text'' ''first''], createdAt = Some (Abs_JSDate 1), webSearchResults = None,
       attachments = None, model = None, imgurl = Undefined,
       isImageGenerationLoading = False\<rparr>,
      \<lparr>id' = ''b'', content = ''second'', role = ''assistant'',
       parts = [Part ''text'' ''second''], createdAt = Some (Abs_JSDate 2), webSearchResults = None,
       attachments = None, model = None, imgurl = Undefined,
       isImageGenerationLoading = False\<rparr>]"
  note inst = reconcile_empty_incoming [of "''t1''" "{}" ?L "''t1''" "[]"]
  have ordered: "distinct (map id' ?L) \<and> sorted (map timeOf ?L)"
    by (simp add: timeOf_def getTime_def Abs_JSDate_inverse)
  have "\<not> (\<forall>m\<in>set ?L. id' m \<in> {})"
    by (simp only: empty_iff list.set ball_simps simp_thms)
  with inst [THEN conjunct1]
  have called: "handleMessagesUpdated ''t1'' {} ?L ''t1'' [] \<noteq> None"
    by (simp only: if_False option.distinct not_False_eq_True)
  from inst [THEN conjunct2, THEN conjunct1] ordered
  have same: "messagesAfter ?L (handleMessagesUpdated ''t1'' {} ?L ''t1'' []) = ?L"
    by (rule mp)
  note inst [THEN conjunct2, THEN conjunct2, THEN mp, OF called, THEN conjunct2]
  then have why: "\<exists>m\<in>set ?L. id' m \<notin> id_db ` set ([]::DBMessage list) \<and> id' m \<notin> {}"
    by (simp only: list.set(1) bex_empty simp_thms)
  from ordered called same why show ?thesis by (intro conjI) (blast+)
qed

text \<open>
  Claim C8 as stated fails. With nothing tracked and nothing incoming, a list of one
  message makes the handler call \<^verbatim>\<open>setMessages\<close>, and a list that is not in order of
  creation time comes back reordered.
\<close>

theorem reconcile_empty_not_identity_counterexample:
  "handleMessagesUpdated ''t1'' {}
     [\<lparr>id' = ''a'', content = ''first'', role = ''user'',
       parts = [Part ''text'' ''first''], createdAt = Some (Abs_JSDate 1), webSearchResults = None,
       attachments = None, model = None, imgurl = Undefined,
       isImageGenerationLoading = False\<rparr>]
     ''t1'' [] =
   Some
     [\<lparr>id' = ''a'', content = ''first'', role = ''user'',
       parts = [Part ''text'' ''first''], createdAt = Some (Abs_JSDate 1), webSearchResults = None,
       attachments = None, model = None, imgurl = Undefined,
       isImageGenerationLoading = False\<rparr>] \<and>
   handleMessagesUpdated ''t1'' {}
     [\<lparr>id' = ''b'', content = ''second'', role = ''assistant'',
       parts = [Part ''text'' ''second''], createdAt = Some (Abs_JSDate 2), webSearchResults = None,
       attachments = None, model = None, imgurl = Undefined,
       isImageGenerationLoading = False\<rparr>,
      \<lparr>id' = ''a'', content = ''first'', role = ''user'',
       parts = [Part ''text'' ''first''], createdAt = Some (Abs_JSDate 1), webSearchResults = None,
       attachments = None, model = None, imgurl = Undefined,
       isImageGenerationLoading = False\<rparr>]
     ''t1'' [] =
   Some
     [\<lparr>id' = ''a'', content = ''first'', role = ''user'',
       parts = [Part ''text'' ''first''], createdAt = Some (Abs_JSDate 1), webSearchResults = None,
       attachments = None, model = None, imgurl = Undefined,
       isImageGenerationLoading = False\<rparr>,
      \<lparr>id' = ''b'', content = ''second'', role = ''assistant'',
       parts = [Part ''text'' ''second''], createdAt = Some (Abs_JSDate 2), webSearchResults = None,
       attachments = None, model = None, imgurl = Undefined,
       isImageGenerationLoading = False\<rparr>]"
  by (simp add: handleMessagesUpdated_def deduplicateMessages_def dedup_visit_def timeOf_def
      getTime_def Abs_JSDate_inverse)

section \<open>The realtime subscriber\<close>

lemma starts_with_iff: "starts_with s sub \<longleftrightarrow> (\<exists>ss. s = sub @ ss)"
  by (induction s sub rule: starts_with.induct) auto

lemma includes'_iff: "includes' s sub \<longleftrightarrow> (\<exists>ps ss. s = ps @ sub @ ss)"
proof (induction s)
  case Nil
  then show ?case by auto
next
  case (Cons x xs)
  show ?case
  proof
    assume "includes' (x # xs) sub"
    then consider "starts_with (x # xs) sub" | "includes' xs sub" by auto
    then show "\<exists>ps ss. x # xs = ps @ sub @ ss"
    proof cases
      case 1
      then obtain ss where "x # xs = sub @ ss" by (auto simp: starts_with_iff)
      then have "x # xs = [] @ sub @ ss" by simp
      then show ?thesis by blast
    next
      case 2
      with Cons.IH obtain ps ss where "xs = ps @ sub @ ss" by blast
      then have "x # xs = (x # ps) @ sub @ ss" by simp
      then show ?thesis by blast
    qed
  next
    assume "\<exists>ps ss. x # xs = ps @ sub @ ss"
    then obtain ps ss where e: "x # xs = ps @ sub @ ss" by blast
    show "includes' (x # xs) sub"
    proof (cases ps)
      case Nil
      with e have "starts_with (x # xs) sub" by (auto simp: starts_with_iff)
      then show ?thesis by simp
    next
      case (Cons p ps')
      with e have "xs = ps' @ sub @ ss" by simp
      with Cons.IH have "includes' xs sub" by blast
      then show ?thesis by simp
    qed
  qed
qed

lemma listen_at_most_one: "listen l response = Inr calls \<Longrightarrow> length calls \<le> 1"
  by (cases l)
     (auto simp: threadsListener_def messagesListener_def messageSummariesListener_def
        projectsListener_def split: option.splits if_splits list.splits)

lemma run_handler_at_most_one: "length (run_handler cbs h doc) \<le> 1"
  by (simp add: run_handler_def split: option.splits)

lemma deliver_at_most_one:
  assumes "deliver cbs l response = Inr fired"
  shows "length fired \<le> 1"
proof -
  from assms obtain calls where c: "listen l response = Inr calls"
    and f: "fired = concat (map (\<lambda>(h, doc). run_handler cbs h doc) calls)"
    by (auto simp: deliver_def split: sum.splits)
  from listen_at_most_one [OF c] have "calls = [] \<or> (\<exists>h doc. calls = [(h, doc)])"
    by (cases calls) auto
  then show ?thesis using f run_handler_at_most_one [of cbs] by auto
qed

text \<open>
  Claim C6. When the owning user of the payload is not the user the subscription was
  opened for (or the payload or its owner is absent), each of the four listeners
  returns without calling a handler and without an error, and so no callback runs.
\<close>

theorem foreign_owner_event_dropped:
  assumes "(case payload response of None \<Rightarrow> None | Some doc \<Rightarrow> userId doc) \<noteq> Some uid"
  shows "threadsListener uid response = Inr [] \<and>
         messagesListener uid response = Inr [] \<and>
         messageSummariesListener uid response = Inr [] \<and>
         projectsListener uid response = Inr [] \<and>
         deliver cbs (ThreadsListener uid) response = Inr [] \<and>
         deliver cbs (MessagesListener uid) response = Inr [] \<and>
         deliver cbs (MessageSummariesListener uid) response = Inr [] \<and>
         deliver cbs (ProjectsListener uid) response = Inr []"
  using assms
  by (simp add: deliver_def threadsListener_def messagesListener_def messageSummariesListener_def
        projectsListener_def split: option.splits)

theorem foreign_owner_event_dropped_witness:
  "(case payload \<lparr>events = [''databases.main.collections.messages.documents.m1.create''],
                   payload = Some \<lparr>userId = Some ''u2''\<rparr>\<rparr> of
      None \<Rightarrow> None | Some doc \<Rightarrow> userId doc) \<noteq> Some ''u1'' \<and>
   deliver [onMessageCreated \<mapsto> (0::nat)] (MessagesListener ''u1'')
     \<lparr>events = [''databases.main.collections.messages.documents.m1.create''],
      payload = Some \<lparr>userId = Some ''u2''\<rparr>\<rparr> = Inr []"
  using foreign_owner_event_dropped
    [of "\<lparr>events = [''databases.main.collections.messages.documents.m1.create''],
          payload = Some \<lparr>userId = Some ''u2''\<rparr>\<rparr>"
        "''u1''" "[onMessageCreated \<mapsto> (0::nat)]"]
  by simp

lemma Map_has_Map_set: "Map_has k (Map_set k' v m) = (k = k' \<or> Map_has k m)"
  by (auto simp: Map_has_def map_of_Map_set)

lemma subscribeToThreads_has:
  "Map_has k (subscriptions (subscribeToThreads cfg uid st)) =
     (k = ''threads'' \<or> Map_has k (subscriptions st))"
  by (auto simp: subscribeToThreads_def client_subscribe_def Map_has_Map_set)

lemma subscribeToMessages_has:
  "Map_has k (subscriptions (subscribeToMessages cfg uid st)) =
     (k = ''messages'' \<or> Map_has k (subscriptions st))"
  by (auto simp: subscribeToMessages_def client_subscribe_def Map_has_Map_set)

lemma subscribeToMessageSummaries_has:
  "Map_has k (subscriptions (subscribeToMessageSummaries cfg uid st)) =
     (k = ''message_summaries'' \<or> Map_has k (subscriptions st))"
  by (auto simp: subscribeToMessageSummaries_def client_subscribe_def Map_has_Map_set)

lemma subscribeToProjects_has:
  "Map_has k (subscriptions (subscribeToProjects cfg uid st)) =
     (k = ''projects'' \<or> Map_has k (subscriptions st))"
  by (auto simp: subscribeToProjects_def client_subscribe_def Map_has_Map_set)

lemmas subscribe_has =
  subscribeToThreads_has subscribeToMessages_has subscribeToMessageSummaries_has
  subscribeToProjects_has

lemma subscribeToAll_has:
  "Map_has k (subscriptions (subscribeToAll cfg uid st)) =
     (k \<in> {''threads'', ''messages'', ''message_summaries'', ''projects''} \<or>
      Map_has k (subscriptions st))"
  by (auto simp: subscribeToAll_def subscribe_has)

lemma subscribeToAll_noop:
  assumes "\<forall>k\<in>{''threads'', ''messages'', ''message_summaries'', ''projects''}.
             Map_has k (subscriptions st)"
  shows "subscribeToAll cfg uid st = st"
  using assms
  by (simp add: subscribeToAll_def subscribeToThreads_def subscribeToMessages_def
        subscribeToMessageSummaries_def subscribeToProjects_def)

lemma subscribeToAll_twice:
  "subscribeToAll cfg uid' (subscribeToAll cfg uid st) = subscribeToAll cfg uid st"
  by (rule subscribeToAll_noop) (simp add: subscribeToAll_has)

lemma subscribeToAll_repeat:
  "((subscribeToAll cfg uid) ^^ Suc n) st = subscribeToAll cfg uid st"
  by (induction n) (simp_all add: subscribeToAll_twice)

lemma subscribeToAll_initial:
  "subscribeToAll cfg uid initialRealtime =
     \<lparr>subscriptions = [(''threads'', 0), (''messages'', 1), (''message_summaries'', 2), (''projects'', 3)],
      callbacks = Map.empty,
      client = \<lparr>channels =
        [(documents_channel cfg (THREADS_COLLECTION_ID cfg), ThreadsListener uid),
         (documents_channel cfg (MESSAGES_COLLECTION_ID cfg), MessagesListener uid),
         (documents_channel cfg (MESSAGE_SUMMARIES_COLLECTION_ID cfg), MessageSummariesListener uid),
         (documents_channel cfg (PROJECTS_COLLECTION_ID cfg), ProjectsListener uid)]\<rparr>\<rparr>"
  by (simp add: subscribeToAll_def subscribeToThreads_def subscribeToMessages_def
        subscribeToMessageSummaries_def subscribeToProjects_def initialRealtime_def
        client_subscribe_def Map_has_def)

text \<open>
  Claim C7. A call of \<^verbatim>\<open>subscribeToAll\<close> after another, for whatever users, changes
  neither the registry nor the client. Any number of calls in a row amounts to one, and
  from the initial state leaves the registry with the four keys, one handle each, and the
  client with four open subscriptions, one per collection.
\<close>

theorem subscribeToAll_idempotent:
  "subscribeToAll cfg uid' (subscribeToAll cfg uid st) = subscribeToAll cfg uid st \<and>
   ((subscribeToAll cfg uid) ^^ Suc n) st = subscribeToAll cfg uid st \<and>
   subscriptions (((subscribeToAll cfg uid) ^^ Suc n) initialRealtime) =
     [(''threads'', 0), (''messages'', 1), (''message_summaries'', 2), (''projects'', 3)] \<and>
   channels (client (((subscribeToAll cfg uid) ^^ Suc n) initialRealtime)) =
     [(documents_channel cfg (THREADS_COLLECTION_ID cfg), ThreadsListener uid),
      (documents_channel cfg (MESSAGES_COLLECTION_ID cfg), MessagesListener uid),
      (documents_channel cfg (MESSAGE_SUMMARIES_COLLECTION_ID cfg), MessageSummariesListener uid),
      (documents_channel cfg (PROJECTS_COLLECTION_ID cfg), ProjectsListener uid)]"
  by (simp only: subscribeToAll_repeat subscribeToAll_twice subscribeToAll_initial) simp

text \<open>
  Claim C9, at the failing input. The first entry of the \<^verbatim>\<open>events\<close> of a create event
  names the database, collection and document. The summaries listener compares it with
  the wildcard pattern for equality and calls no handler; the messages listener, given
  the same envelope, finds \<^verbatim>\<open>.create\<close> in it and calls its handler. An envelope with no
  event names makes the messages listener throw.
\<close>

theorem summary_event_not_matched:
  "messageSummariesListener ''u1''
     \<lparr>events = [''databases.main.collections.message_summaries.documents.s1.create''],
      payload = Some \<lparr>userId = Some ''u1''\<rparr>\<rparr> = Inr [] \<and>
   messagesListener ''u1''
     \<lparr>events = [''databases.main.collections.message_summaries.documents.s1.create''],
      payload = Some \<lparr>userId = Some ''u1''\<rparr>\<rparr> =
     Inr [(handleMessageCreated, \<lparr>userId = Some ''u1''\<rparr>)] \<and>
   messagesListener ''u1'' \<lparr>events = [], payload = Some \<lparr>userId = Some ''u1''\<rparr>\<rparr> =
     Inl TypeError"
  by (simp add: messageSummariesListener_def messagesListener_def)

end
